theory Spec2Isabelle
  imports Main "HOL-Library.Word"
begin

section \<open>Primitives: colours, coordinates, panics\<close>

text \<open>
  \<^verbatim>\<open>rl.Color\<close> is a struct of four \<^verbatim>\<open>uint8\<close> channels, compared with \<^verbatim>\<open>==\<close>
  and \<^verbatim>\<open>!=\<close> field by field. The four colour constants are raylib's.
  The zero value of the struct is \<open>Transparent\<close>, which is what a Go map of colours
  returns for a missing key.
\<close>

datatype Color = NewColor (R: "8 word") (G: "8 word") (B: "8 word") (A: "8 word")

definition Transparent :: Color where
  "Transparent = NewColor 0 0 0 0"

definition Black :: Color where
  "Black = NewColor 0 0 0 255"

definition Red :: Color where
  "Red = NewColor 230 41 55 255"

definition Blue :: Color where
  "Blue = NewColor 0 121 241 255"

text \<open>\<^verbatim>\<open>IntVec2{x, y}\<close>, the key of every pixel map.\<close>

datatype IntVec2 = IntVec2 (X: int) (Y: int)

type_synonym pixels = "IntVec2 \<rightharpoonup> Color"

text \<open>
  A run-time panic of Go ends the program; it is the \<open>Inl\<close> of every result below.
  An \<^verbatim>\<open>error\<close> that a method returns is an ordinary value: the caller receives
  it together with the document as the method left it.
\<close>

datatype panic = IndexOutOfRange | SliceBoundsOutOfRange

type_synonym error = "string option"

text \<open>
  Go's \<^verbatim>\<open>int\<close> is modelled as \<open>int\<close>. \<^verbatim>\<open>xs[i]\<close> panics outside
  \<open>0 \<le> i < len(xs)\<close>. A slice expression \<^verbatim>\<open>xs[lo:hi]\<close> panics unless
  \<open>0 \<le> lo \<le> hi\<close> and \<open>hi\<close> is within the slice; the model bounds \<open>hi\<close> by the
  length (Go bounds it by the capacity, which the model does not track, so a reslice
  past the length counts as a panic here).
\<close>

definition go_index :: "'a list \<Rightarrow> int \<Rightarrow> panic + 'a" where
  "go_index xs i =
     (if 0 \<le> i \<and> i < int (length xs) then Inr (xs ! nat i) else Inl IndexOutOfRange)"

definition go_slice :: "'a list \<Rightarrow> int \<Rightarrow> int \<Rightarrow> panic + 'a list" where
  "go_slice xs lo hi =
     (if 0 \<le> lo \<and> lo \<le> hi \<and> hi \<le> int (length xs)
      then Inr (take (nat (hi - lo)) (drop (nat lo) xs))
      else Inl SliceBoundsOutOfRange)"

text \<open>Reading a colour map the way Go does: the zero value for a missing key.\<close>

definition color_at :: "pixels \<Rightarrow> IntVec2 \<Rightarrow> Color" where
  "color_at m p = (case m p of None \<Rightarrow> Transparent | Some c \<Rightarrow> c)"

section \<open>Layers and their surfaces\<close>

text \<open>
  The surface of a layer (\<^verbatim>\<open>rl.RenderTexture2D\<close>) lives in the graphics library.
  It is modelled by the calls made on it since it was loaded, oldest first; a function
  that makes no call leaves it as it was. \<open>DrawPixels\<close> stands for one
  \<^verbatim>\<open>rl.DrawPixel\<close> per entry of a map, in the unspecified order of a Go
  \<^verbatim>\<open>range\<close>.
\<close>

datatype draw_call =
    LoadRenderTexture int int
  | ClearBackground Color
  | RlDrawPixel int int Color
  | DrawPixels pixels

type_synonym RenderTexture2D = "draw_call list"

record Layer =
  Hidden :: bool
  Canvas :: RenderTexture2D
  hasInitialFill :: bool
  InitialFillColor :: Color
  Name :: string
  PixelData :: pixels

definition NewLayer :: "int \<Rightarrow> int \<Rightarrow> string \<Rightarrow> Color \<Rightarrow> bool \<Rightarrow> Layer" where
  "NewLayer width height name fillColor shouldFill =
     \<lparr>Hidden = False,
      Canvas = [LoadRenderTexture width height],
      hasInitialFill = \<not> shouldFill,
      InitialFillColor = fillColor,
      Name = name,
      PixelData = Map.empty\<rparr>"

text \<open>
  Modelled from the spec: the body of \<^verbatim>\<open>Layer.Redraw\<close> is in none of the files
  modelled here. The specification describes it as clearing the surface and re-emitting
  every entry of the pixel mapping; it does not touch the mapping itself.
\<close>

definition Redraw :: "Layer \<Rightarrow> Layer" where
  "Redraw l = l\<lparr>Canvas := Canvas l @ [ClearBackground Transparent, DrawPixels (PixelData l)]\<rparr>"

section \<open>History entries and the document\<close>

datatype HistoryLayerAction =
    HistoryLayerActionDelete
  | HistoryLayerActionCreate
  | HistoryLayerActionMoveUp
  | HistoryLayerActionMoveDown

record PixelStateData =
  Prev :: Color
  Current :: Color

text \<open>
  \<^verbatim>\<open>f.History\<close> is a slice of \<^verbatim>\<open>interface{}\<close> whose dynamic types are the four
  structs below; the type switches of \<^verbatim>\<open>Undo\<close> and \<^verbatim>\<open>Redo\<close> become pattern
  matching. The argument order of each constructor is the field order of the struct.
\<close>

datatype HistoryItem =
    CompoundHistory "HistoryItem list"
  | HistoryLayer HistoryLayerAction int
  | HistoryPixel "IntVec2 \<rightharpoonup> PixelStateData" int
  | HistoryResize "pixels list" "pixels list" int int int int

datatype ResizeDirection =
    ResizeTL | ResizeTC | ResizeTR
  | ResizeCL | ResizeCC | ResizeCR
  | ResizeBL | ResizeBC | ResizeBR

typedecl float32

record Animation =
  AnimationName :: string
  FrameStart :: int
  FrameEnd :: int
  Timing :: float32

text \<open>
  The fields of \<^verbatim>\<open>File\<close> that the functions below read or write. Its other
  fields (paths, tools, brush sizes, brush colours, mouse flags) are touched by
  none of them. Layers are held by pointer in Go; no two slots of \<^verbatim>\<open>Layers\<close> and
  \<^verbatim>\<open>deletedLayers\<close> hold the same pointer and every layer has a map of its own, so
  a list of layer values carries the same information. The functions are methods of the document that is also the global
  \<^verbatim>\<open>CurrentFile\<close>, which \<^verbatim>\<open>Layer.Resize\<close> reads.
\<close>

record File =
  Layers :: "Layer list"
  CurrentLayer :: int
  Animations :: "Animation list"
  CurrentAnimation :: int
  History :: "HistoryItem list"
  HistoryMaxActions :: int
  historyOffset :: int
  deletedLayers :: "Layer list"
  DoingSelection :: bool
  Selection :: pixels
  SelectionMoving :: bool
  CanvasWidth :: int
  CanvasHeight :: int
  TileWidth :: int
  TileHeight :: int
  CanvasWidthResizePreview :: int
  CanvasHeightResizePreview :: int
  CanvasDirectionResizePreview :: ResizeDirection

definition NewFile :: "int \<Rightarrow> int \<Rightarrow> int \<Rightarrow> int \<Rightarrow> File" where
  "NewFile canvasWidth canvasHeight tileWidth tileHeight =
     \<lparr>Layers = [NewLayer canvasWidth canvasHeight ''background'' Transparent True,
                NewLayer canvasWidth canvasHeight ''hidden'' Transparent True],
      CurrentLayer = 0,
      Animations = [],
      CurrentAnimation = 0,
      History = [],
      HistoryMaxActions = 500,
      historyOffset = 0,
      deletedLayers = [],
      DoingSelection = False,
      Selection = Map.empty,
      SelectionMoving = False,
      CanvasWidth = canvasWidth,
      CanvasHeight = canvasHeight,
      TileWidth = tileWidth,
      TileHeight = tileHeight,
      CanvasWidthResizePreview = canvasWidth,
      CanvasHeightResizePreview = canvasHeight,
      CanvasDirectionResizePreview = ResizeTL\<rparr>"

section \<open>The history log\<close>

definition AppendHistory :: "HistoryItem \<Rightarrow> File \<Rightarrow> panic + File" where
  "AppendHistory action f =
     (case go_slice (History f) 0 (int (length (History f)) - historyOffset f) of
        Inl e \<Rightarrow> Inl e
      | Inr h \<Rightarrow>
          if int (length h) \<ge> HistoryMaxActions f
          then (case go_slice h (int (length h) - HistoryMaxActions f + 1) (HistoryMaxActions f) of
                  Inl e \<Rightarrow> Inl e
                | Inr h' \<Rightarrow> Inr (f\<lparr>History := h' @ [action], historyOffset := 0\<rparr>))
          else Inr (f\<lparr>History := h @ [action], historyOffset := 0\<rparr>))"

text \<open>A run of \<^verbatim>\<open>AppendHistory\<close> calls, one per element, in order.\<close>

fun AppendHistoryAll :: "HistoryItem list \<Rightarrow> File \<Rightarrow> panic + File" where
  "AppendHistoryAll [] f = Inr f"
| "AppendHistoryAll (a # as) f =
     (case AppendHistory a f of Inl e \<Rightarrow> Inl e | Inr f' \<Rightarrow> AppendHistoryAll as f')"

section \<open>Drawing\<close>

definition GetCurrentLayer :: "File \<Rightarrow> panic + Layer" where
  "GetCurrentLayer f = go_index (Layers f) (CurrentLayer f)"

definition SetCurrentLayer :: "int \<Rightarrow> File \<Rightarrow> File" where
  "SetCurrentLayer i f = f\<lparr>CurrentLayer := i\<rparr>"

text \<open>
  The block of \<^verbatim>\<open>DrawPixel\<close> under \<^verbatim>\<open>if oldColor != color\<close>: it reads the last
  element of the log and, when that is a \<^verbatim>\<open>HistoryPixel\<close>, stores both colours
  under the coordinate in its map. The map is shared with the entry in the log, so the
  entry in the log is the one that changes.
\<close>

definition record_pixel ::
  "IntVec2 \<Rightarrow> Color \<Rightarrow> Color \<Rightarrow> HistoryItem list \<Rightarrow> panic + HistoryItem list" where
  "record_pixel p oldColor color hist =
     (case go_index hist (int (length hist) - 1) of
        Inl e \<Rightarrow> Inl e
      | Inr latestHistory \<Rightarrow>
          (case latestHistory of
             HistoryPixel pixelState layerIndex \<Rightarrow>
               Inr (hist[length hist - 1 :=
                      HistoryPixel (pixelState(p \<mapsto> \<lparr>Prev = oldColor, Current = color\<rparr>)) layerIndex])
           | _ \<Rightarrow> Inr hist))"

text \<open>
  \<^verbatim>\<open>BlendWithOpacity\<close> is defined in another file of the repository;
  \<^verbatim>\<open>DrawPixel\<close> and \<^verbatim>\<open>MergeLayerDown\<close> take the blending function as their
  first argument, and the properties below hold for every such function unless they say
  otherwise.
\<close>

type_synonym blend = "Color \<Rightarrow> Color \<Rightarrow> Color"

text \<open>
  Modelled from the spec: the body of \<^verbatim>\<open>BlendWithOpacity\<close> is in none of the files
  modelled here. The specification gives the compositing rule: if the new colour is fully
  transparent the destination is unchanged, otherwise the new colour is composited over
  the destination with the new colour's alpha. The rule is written here on 8-bit channels
  with integer division; an opaque new colour replaces the destination whatever the
  rounding. It serves as the blending function of the concrete runs below.
\<close>

definition over :: "8 word \<Rightarrow> 8 word \<Rightarrow> 8 word \<Rightarrow> 8 word" where
  "over a s d = of_nat ((unat s * unat a + unat d * (255 - unat a)) div 255)"

definition BlendWithOpacity :: blend where
  "BlendWithOpacity dst src =
     (if A src = 0 then dst
      else NewColor (over (A src) (R src) (R dst)) (over (A src) (G src) (G dst))
                    (over (A src) (B src) (B dst)) (over (A src) 255 (A dst)))"

definition DrawPixel :: "blend \<Rightarrow> int \<Rightarrow> int \<Rightarrow> Color \<Rightarrow> bool \<Rightarrow> File \<Rightarrow> panic + File" where
  "DrawPixel blend x y color saveToHistory f =
     (case GetCurrentLayer f of
        Inl e \<Rightarrow> Inl e
      | Inr layer \<Rightarrow>
          if saveToHistory then
            if x \<ge> 0 \<and> y \<ge> 0 \<and> x < CanvasWidth f \<and> y < CanvasHeight f then
              let oldColor = color_at (PixelData layer) (IntVec2 x y);
                  color = (if color \<noteq> Transparent then blend oldColor color else color)
              in case (if oldColor \<noteq> color
                       then record_pixel (IntVec2 x y) oldColor color (History f)
                       else Inr (History f)) of
                   Inl e \<Rightarrow> Inl e
                 | Inr hist \<Rightarrow>
                     Inr (f\<lparr>History := hist,
                            Layers := (Layers f)[nat (CurrentLayer f) :=
                              layer\<lparr>PixelData := (PixelData layer)(IntVec2 x y \<mapsto> color),
                                    Canvas := Canvas layer @
                                      [RlDrawPixel x y (if color = Transparent then Black else color)]\<rparr>]\<rparr>)
            else Inr f
          else Inr f)"

text \<open>
  One gesture, as \<^verbatim>\<open>UIFileSystem.Update\<close> drives it: on mouse-down a fresh
  \<^verbatim>\<open>HistoryPixel\<close> for the current layer is appended, then the tool calls
  \<^verbatim>\<open>DrawPixel\<close> with \<^verbatim>\<open>saveToHistory\<close> set, once per coordinate and colour.
\<close>

fun DrawPixelAll :: "blend \<Rightarrow> (int \<times> int \<times> Color) list \<Rightarrow> File \<Rightarrow> panic + File" where
  "DrawPixelAll b [] f = Inr f"
| "DrawPixelAll b ((x, y, color) # ds) f =
     (case DrawPixel b x y color True f of Inl e \<Rightarrow> Inl e | Inr f' \<Rightarrow> DrawPixelAll b ds f')"

definition gesture :: "blend \<Rightarrow> (int \<times> int \<times> Color) list \<Rightarrow> File \<Rightarrow> panic + File" where
  "gesture b ds f =
     (case AppendHistory (HistoryPixel Map.empty (CurrentLayer f)) f of
        Inl e \<Rightarrow> Inl e
      | Inr f' \<Rightarrow> DrawPixelAll b ds f')"

section \<open>Resizing\<close>

text \<open>Go's \<^verbatim>\<open>/ 2\<close> on \<^verbatim>\<open>int\<close> truncates towards zero.\<close>

definition half :: "int \<Rightarrow> int" where
  "half a = (if a < 0 then - ((- a) div 2) else a div 2)"

text \<open>
  \<^verbatim>\<open>Layer.Resize\<close> loads a new surface of the size it is given and redraws the pixel
  map on it, shifted by an offset that it computes from the fields of
  \<^verbatim>\<open>CurrentFile\<close> (the document \<open>cf\<close>), not from its arguments. It leaves
  \<^verbatim>\<open>PixelData\<close> alone.
\<close>

definition resize_offset :: "File \<Rightarrow> int \<times> int" where
  "resize_offset cf =
     (let w = CanvasWidth cf; h = CanvasHeight cf;
          nw = CanvasWidthResizePreview cf; nh = CanvasHeightResizePreview cf
      in case CanvasDirectionResizePreview cf of
           ResizeTL \<Rightarrow> (0, 0)
         | ResizeTC \<Rightarrow> (half (w - nw), 0)
         | ResizeTR \<Rightarrow> (w - nw, 0)
         | ResizeCL \<Rightarrow> (0, half (h - nh))
         | ResizeCC \<Rightarrow> (half (w - nw), half (h - nh))
         | ResizeCR \<Rightarrow> (w - nw, half (h - nh))
         | ResizeBL \<Rightarrow> (0, h - nh)
         | ResizeBC \<Rightarrow> (half (w - nw), h - nh)
         | ResizeBR \<Rightarrow> (w - nw, h - nh))"

definition Resize :: "File \<Rightarrow> int \<Rightarrow> int \<Rightarrow> ResizeDirection \<Rightarrow> Layer \<Rightarrow> Layer" where
  "Resize cf width height direction l =
     (let w = CanvasWidth cf; h = CanvasHeight cf; (dx, dy) = resize_offset cf
      in l\<lparr>Canvas :=
             [LoadRenderTexture width height, ClearBackground Transparent] @
             concat (map (\<lambda>x. concat (map (\<lambda>y.
                 case PixelData l (IntVec2 x y) of
                   Some color \<Rightarrow> [RlDrawPixel (x - dx) (y - dy) color]
                 | None \<Rightarrow> []) [dy..h - 1])) [dx..w - 1])\<rparr>)"

text \<open>
  \<^verbatim>\<open>ResizeCanvas\<close> appends each layer's map to \<^verbatim>\<open>prevLayerDatas\<close>, resizes the
  layer, and appends its map to \<^verbatim>\<open>currentLayerDatas\<close>. The canvas size of the
  document changes only after the loop, so every layer is resized against the old size.
  Go stores the maps by reference; the lists below hold their contents at the time of the
  call. A later write to a layer's map would show in the recorded map as well; between a
  resize and the \<^verbatim>\<open>Undo\<close> that follows it there is none.
\<close>

definition ResizeCanvas :: "int \<Rightarrow> int \<Rightarrow> ResizeDirection \<Rightarrow> File \<Rightarrow> panic + File" where
  "ResizeCanvas width height direction f =
     (let prevLayerDatas = map PixelData (Layers f);
          layers = map (Resize f width height direction) (Layers f);
          currentLayerDatas = map PixelData layers
      in case AppendHistory
                (HistoryResize prevLayerDatas currentLayerDatas
                   (CanvasWidth f) (CanvasHeight f) width height)
                (f\<lparr>Layers := layers\<rparr>) of
           Inl e \<Rightarrow> Inl e
         | Inr f' \<Rightarrow> Inr (f'\<lparr>CanvasWidth := width, CanvasHeight := height\<rparr>))"

section \<open>Animations\<close>

text \<open>
  The guard of both functions computes \<^verbatim>\<open>index-1\<close> on an index the caller chooses;
  this is the one subtraction in the model whose 64-bit wrap-around can decide a branch,
  so it is written out.
\<close>

definition wrap_int :: "int \<Rightarrow> int" where
  "wrap_int i = (i + 2 ^ 63) mod 2 ^ 64 - 2 ^ 63"

definition DeleteAnimation :: "int \<Rightarrow> File \<Rightarrow> panic + (error \<times> File)" where
  "DeleteAnimation index f =
     (if wrap_int (index - 1) \<ge> int (length (Animations f))
      then Inr (Some ''Animation not in range'', f)
      else case go_slice (Animations f) 0 index of
             Inl e \<Rightarrow> Inl e
           | Inr front \<Rightarrow>
               (case go_slice (Animations f) (index + 1) (int (length (Animations f))) of
                  Inl e \<Rightarrow> Inl e
                | Inr back \<Rightarrow>
                    Inr (None, f\<lparr>Animations := front @ back,
                                 CurrentAnimation := int (length (front @ back)) - 1\<rparr>)))"

definition GetAnimation :: "int \<Rightarrow> File \<Rightarrow> panic + (Animation option \<times> error)" where
  "GetAnimation index f =
     (if wrap_int (index - 1) \<ge> int (length (Animations f))
      then Inr (None, Some ''Animation not in range'')
      else case go_index (Animations f) index of
             Inl e \<Rightarrow> Inl e
           | Inr a \<Rightarrow> Inr (Some a, None))"

section \<open>Layer operations\<close>

definition DeleteLayer :: "int \<Rightarrow> bool \<Rightarrow> File \<Rightarrow> panic + (error \<times> File)" where
  "DeleteLayer index appendHistory f =
     (if length (Layers f) > 2 then
        case go_index (Layers f) index of
          Inl e \<Rightarrow> Inl e
        | Inr l \<Rightarrow>
            let f1 = f\<lparr>deletedLayers := deletedLayers f @ [l],
                       Layers := take (nat index) (Layers f) @ drop (nat (index + 1)) (Layers f)\<rparr>
            in case (if appendHistory
                     then AppendHistory (HistoryLayer HistoryLayerActionDelete index) f1
                     else Inr f1) of
                 Inl e \<Rightarrow> Inl e
               | Inr f2 \<Rightarrow>
                   Inr (None,
                        if CurrentLayer f2 > int (length (Layers f2)) - 2
                        then SetCurrentLayer (int (length (Layers f2)) - 2) f2
                        else f2)
      else Inr (Some (''Couldn'' @ [CHR 0x27] @ ''t delete layer as it'' @ [CHR 0x27] @
                      ''s the only one visible''), f))"

definition RestoreLayer :: "int \<Rightarrow> File \<Rightarrow> panic + (error \<times> File)" where
  "RestoreLayer index f =
     (if length (deletedLayers f) = 0 then Inr (Some ''No layers to restore'', f)
      else if 0 \<le> index \<and> index \<le> int (length (Layers f)) then
        Inr (None,
             f\<lparr>Layers := take (nat index) (Layers f) @ [last (deletedLayers f)] @
                          drop (nat index) (Layers f),
               deletedLayers := butlast (deletedLayers f)\<rparr>)
      else Inl SliceBoundsOutOfRange)"

definition MoveLayerUp :: "int \<Rightarrow> bool \<Rightarrow> File \<Rightarrow> panic + (error \<times> File)" where
  "MoveLayerUp index appendHistory f =
     (if index < int (length (Layers f)) - 2 then
        case go_index (Layers f) index of
          Inl e \<Rightarrow> Inl e
        | Inr toMove \<Rightarrow>
            let layers1 = take (nat index) (Layers f) @ drop (nat (index + 1)) (Layers f);
                f1 = f\<lparr>Layers := take (nat index) layers1 @ [layers1 ! nat index, toMove] @
                                   drop (nat (index + 1)) layers1\<rparr>
            in if appendHistory
               then (case AppendHistory (HistoryLayer HistoryLayerActionMoveUp index) f1 of
                       Inl e \<Rightarrow> Inl e
                     | Inr f2 \<Rightarrow> Inr (None, f2))
               else Inr (None, f1)
      else Inr (Some (''Couldn'' @ [CHR 0x27] @ ''t move layer up''), f))"

definition MoveLayerDown :: "int \<Rightarrow> bool \<Rightarrow> File \<Rightarrow> panic + (error \<times> File)" where
  "MoveLayerDown index appendHistory f =
     (if index > 0 then
        case go_index (Layers f) index of
          Inl e \<Rightarrow> Inl e
        | Inr toMove \<Rightarrow>
            let layers1 = take (nat index) (Layers f) @ drop (nat (index + 1)) (Layers f);
                f1 = f\<lparr>Layers :=
                         (if index - 1 = 0 then [toMove] @ layers1
                          else take (nat (index - 1)) layers1 @ [toMove] @
                               drop (nat (index - 1)) layers1)\<rparr>
            in if appendHistory
               then (case AppendHistory (HistoryLayer HistoryLayerActionMoveDown index) f1 of
                       Inl e \<Rightarrow> Inl e
                     | Inr f2 \<Rightarrow> Inr (None, f2))
               else Inr (None, f1)
      else Inr (Some (''Couldn'' @ [CHR 0x27] @ ''t move layer down''), f))"

text \<open>
  The loop of \<^verbatim>\<open>MergeLayerDown\<close> visits every key of the upper layer's map once;
  what it writes under a key depends on that key alone, so the order of the
  \<^verbatim>\<open>range\<close> does not show in the result.
\<close>

definition MergeLayerDown :: "blend \<Rightarrow> int \<Rightarrow> File \<Rightarrow> panic + (error \<times> File)" where
  "MergeLayerDown blend index f =
     (if length (Layers f) \<le> 2
      then Inr (Some (''Couldn'' @ [CHR 0x27] @ ''t merge layer down: Not enough layers''), f)
      else if index = 0
      then Inr (Some (''Couldn'' @ [CHR 0x27] @ ''t merge layer down: Can'' @ [CHR 0x27] @
                      ''t merge lowest layer''), f)
      else
        case go_index (Layers f) index of
          Inl e \<Rightarrow> Inl e
        | Inr from \<Rightarrow>
            (case go_index (Layers f) (index - 1) of
               Inl e \<Rightarrow> Inl e
             | Inr to \<Rightarrow>
                 let historyPixel = HistoryPixel
                       (\<lambda>loc. case PixelData from loc of
                                 None \<Rightarrow> None
                               | Some color \<Rightarrow>
                                   Some \<lparr>Prev = color_at (PixelData to) loc,
                                         Current = blend (color_at (PixelData to) loc) color\<rparr>)
                       (index - 1);
                     to1 = Redraw (to\<lparr>PixelData :=
                             (\<lambda>loc. case PixelData from loc of
                                       None \<Rightarrow> PixelData to loc
                                     | Some color \<Rightarrow>
                                         Some (blend (color_at (PixelData to) loc) color))\<rparr>);
                     f1 = f\<lparr>Layers := (Layers f)[nat (index - 1) := to1]\<rparr>
                 in case DeleteLayer index False f1 of
                      Inl e \<Rightarrow> Inl e
                    | Inr (Some err, f2) \<Rightarrow> Inr (Some err, f2)
                    | Inr (None, f2) \<Rightarrow>
                        (case AppendHistory
                                (CompoundHistory
                                   [historyPixel, HistoryLayer HistoryLayerActionDelete index]) f2 of
                           Inl e \<Rightarrow> Inl e
                         | Inr f3 \<Rightarrow> Inr (None, f3))))"

section \<open>Undo and redo\<close>

text \<open>
  The loop of the \<^verbatim>\<open>HistoryResize\<close> case: slot \<open>i\<close> of the layer list receives the
  \<open>i\<close>-th recorded map and is resized with the top-left anchor.
\<close>

fun restore_layer_states :: "pixels list \<Rightarrow> nat \<Rightarrow> int \<Rightarrow> int \<Rightarrow> File \<Rightarrow> panic + File" where
  "restore_layer_states [] i width height f = Inr f"
| "restore_layer_states (layer # rest) i width height f =
     (if i < length (Layers f)
      then restore_layer_states rest (Suc i) width height
             (f\<lparr>Layers := (Layers f)[i :=
                  Resize f width height ResizeTL ((Layers f ! i)\<lparr>PixelData := layer\<rparr>)]\<rparr>)
      else Inl IndexOutOfRange)"

text \<open>
  The closure \<^verbatim>\<open>process\<close> of \<^verbatim>\<open>Undo\<close>. Its loop over the actions of a
  \<^verbatim>\<open>CompoundHistory\<close> counts \<open>i\<close> up from \<open>0\<close>. The errors that the layer
  operations return are dropped, as in the source.
\<close>

fun Undo_process :: "HistoryItem \<Rightarrow> File \<Rightarrow> panic + File"
  and Undo_process_actions :: "HistoryItem list \<Rightarrow> File \<Rightarrow> panic + File" where
  "Undo_process (CompoundHistory actions) f = Undo_process_actions actions f"
| "Undo_process (HistoryPixel pixelState layerIndex) f =
     (let f1 = (if DoingSelection f
                then f\<lparr>Selection := Map.empty, DoingSelection := False, SelectionMoving := False\<rparr>
                else f);
          current = CurrentLayer f1;
          f2 = SetCurrentLayer layerIndex f1
      in case GetCurrentLayer f2 of
           Inl e \<Rightarrow> Inl e
         | Inr layer \<Rightarrow>
             Inr (SetCurrentLayer current
                    (f2\<lparr>Layers := (Layers f2)[nat layerIndex :=
                          Redraw (layer\<lparr>PixelData :=
                            (\<lambda>pos. case pixelState pos of
                                      Some psd \<Rightarrow> Some (Prev psd)
                                    | None \<Rightarrow> PixelData layer pos)\<rparr>)]\<rparr>)))"
| "Undo_process (HistoryLayer action layerIndex) f =
     (case (case action of
              HistoryLayerActionDelete \<Rightarrow> RestoreLayer layerIndex f
            | HistoryLayerActionCreate \<Rightarrow> DeleteLayer layerIndex False f
            | HistoryLayerActionMoveUp \<Rightarrow> MoveLayerUp layerIndex False f
            | HistoryLayerActionMoveDown \<Rightarrow> MoveLayerDown layerIndex False f) of
        Inl e \<Rightarrow> Inl e
      | Inr (err, f') \<Rightarrow> Inr f')"
| "Undo_process (HistoryResize prevLayerState currentLayerState
                   prevWidth prevHeight currentWidth currentHeight) f =
     restore_layer_states prevLayerState 0 prevWidth prevHeight
       (f\<lparr>CanvasWidthResizePreview := prevWidth, CanvasHeightResizePreview := prevHeight,
          CanvasWidth := prevWidth, CanvasHeight := prevHeight\<rparr>)"
| "Undo_process_actions [] f = Inr f"
| "Undo_process_actions (a # rest) f =
     (case Undo_process a f of Inl e \<Rightarrow> Inl e | Inr f' \<Rightarrow> Undo_process_actions rest f')"

definition Undo :: "File \<Rightarrow> panic + File" where
  "Undo f =
     (if historyOffset f < int (length (History f)) then
        let f1 = f\<lparr>historyOffset := historyOffset f + 1\<rparr>
        in case go_index (History f1) (int (length (History f1)) - historyOffset f1) of
             Inl e \<Rightarrow> Inl e
           | Inr history \<Rightarrow> Undo_process history f1
      else Inr f)"

text \<open>
  The closure \<^verbatim>\<open>process\<close> of \<^verbatim>\<open>Redo\<close>. Its loop over the actions of a
  \<^verbatim>\<open>CompoundHistory\<close> counts \<open>i\<close> down from \<open>len - 1\<close>: the rest of the list is
  processed before its head.
\<close>

fun Redo_process :: "HistoryItem \<Rightarrow> File \<Rightarrow> panic + File"
  and Redo_process_actions :: "HistoryItem list \<Rightarrow> File \<Rightarrow> panic + File" where
  "Redo_process (CompoundHistory actions) f = Redo_process_actions actions f"
| "Redo_process (HistoryPixel pixelState layerIndex) f =
     (let current = CurrentLayer f;
          f2 = SetCurrentLayer layerIndex f
      in case GetCurrentLayer f2 of
           Inl e \<Rightarrow> Inl e
         | Inr layer \<Rightarrow>
             Inr (SetCurrentLayer current
                    (f2\<lparr>Layers := (Layers f2)[nat layerIndex :=
                          Redraw (layer\<lparr>PixelData :=
                            (\<lambda>pos. case pixelState pos of
                                      Some psd \<Rightarrow> Some (Current psd)
                                    | None \<Rightarrow> PixelData layer pos)\<rparr>)]\<rparr>)))"
| "Redo_process (HistoryLayer action layerIndex) f =
     (case (case action of
              HistoryLayerActionDelete \<Rightarrow> DeleteLayer layerIndex False f
            | HistoryLayerActionCreate \<Rightarrow> RestoreLayer layerIndex f
            | HistoryLayerActionMoveUp \<Rightarrow> MoveLayerUp layerIndex False f
            | HistoryLayerActionMoveDown \<Rightarrow> MoveLayerDown layerIndex False f) of
        Inl e \<Rightarrow> Inl e
      | Inr (err, f') \<Rightarrow> Inr f')"
| "Redo_process (HistoryResize prevLayerState currentLayerState
                   prevWidth prevHeight currentWidth currentHeight) f =
     restore_layer_states currentLayerState 0 currentWidth currentHeight
       (f\<lparr>CanvasWidthResizePreview := currentWidth, CanvasHeightResizePreview := currentHeight,
          CanvasWidth := currentWidth, CanvasHeight := currentHeight\<rparr>)"
| "Redo_process_actions [] f = Inr f"
| "Redo_process_actions (a # rest) f =
     (case Redo_process_actions rest f of Inl e \<Rightarrow> Inl e | Inr f' \<Rightarrow> Redo_process a f')"

definition Redo :: "File \<Rightarrow> panic + File" where
  "Redo f =
     (if historyOffset f > 0 then
        case go_index (History f) (int (length (History f)) - historyOffset f) of
          Inl e \<Rightarrow> Inl e
        | Inr history \<Rightarrow> Redo_process history (f\<lparr>historyOffset := historyOffset f - 1\<rparr>)
      else Inr f)"

text \<open>\<open>n\<close> calls of \<^verbatim>\<open>Undo\<close>, and of \<^verbatim>\<open>Redo\<close>, one after the other.\<close>

fun Undo_times :: "nat \<Rightarrow> File \<Rightarrow> panic + File" where
  "Undo_times 0 f = Inr f"
| "Undo_times (Suc n) f = (case Undo f of Inl e \<Rightarrow> Inl e | Inr f' \<Rightarrow> Undo_times n f')"

fun Redo_times :: "nat \<Rightarrow> File \<Rightarrow> panic + File" where
  "Redo_times 0 f = Inr f"
| "Redo_times (Suc n) f = (case Redo f of Inl e \<Rightarrow> Inl e | Inr f' \<Rightarrow> Redo_times n f')"

text \<open>
  The invariant of the log that \<^verbatim>\<open>NewFile\<close> establishes and every method keeps:
  a positive bound, at most that many entries, and an undo offset within the log.
\<close>

definition history_ok :: "File \<Rightarrow> bool" where
  "history_ok f \<longleftrightarrow>
     0 < HistoryMaxActions f \<and>
     int (length (History f)) \<le> HistoryMaxActions f \<and>
     0 \<le> historyOffset f \<and> historyOffset f \<le> int (length (History f))"

section \<open>Sequences of gestures\<close>

text \<open>Gestures one after the other, each opening its own entry in the log.\<close>

fun gestures :: "blend \<Rightarrow> (int \<times> int \<times> Color) list list \<Rightarrow> File \<Rightarrow> panic + File" where
  "gestures b [] f = Inr f"
| "gestures b (ds # gs) f =
     (case gesture b ds f of Inl e \<Rightarrow> Inl e | Inr f' \<Rightarrow> gestures b gs f')"

text \<open>
  A call of \<^verbatim>\<open>DrawPixel\<close> rewrites a record when it changes the colour of a pixel
  for which the entry at the end of the log already holds a record: the branch
  \<^verbatim>\<open>if oldColor != color\<close> then assigns \<^verbatim>\<open>ps.Prev\<close> a second time. A gesture
  changes each colour once when none of its calls does so, and a run of gestures when
  each gesture does.
\<close>

definition rewrites_record :: "blend \<Rightarrow> int \<Rightarrow> int \<Rightarrow> Color \<Rightarrow> File \<Rightarrow> bool" where
  "rewrites_record blend x y color f =
     (case GetCurrentLayer f of
        Inl e \<Rightarrow> False
      | Inr layer \<Rightarrow>
          x \<ge> 0 \<and> y \<ge> 0 \<and> x < CanvasWidth f \<and> y < CanvasHeight f \<and>
          (let oldColor = color_at (PixelData layer) (IntVec2 x y);
               color = (if color \<noteq> Transparent then blend oldColor color else color)
           in oldColor \<noteq> color \<and>
              (case go_index (History f) (int (length (History f)) - 1) of
                 Inr (HistoryPixel pixelState layerIndex) \<Rightarrow> pixelState (IntVec2 x y) \<noteq> None
               | _ \<Rightarrow> False)))"

fun changes_once :: "blend \<Rightarrow> (int \<times> int \<times> Color) list \<Rightarrow> File \<Rightarrow> bool" where
  "changes_once b [] f = True"
| "changes_once b ((x, y, color) # ds) f =
     (\<not> rewrites_record b x y color f \<and>
      (case DrawPixel b x y color True f of
         Inl e \<Rightarrow> True
       | Inr f' \<Rightarrow> changes_once b ds f'))"

fun gestures_change_once :: "blend \<Rightarrow> (int \<times> int \<times> Color) list list \<Rightarrow> File \<Rightarrow> bool" where
  "gestures_change_once b [] f = True"
| "gestures_change_once b (ds # gs) f =
     (case AppendHistory (HistoryPixel Map.empty (CurrentLayer f)) f of
        Inl e \<Rightarrow> True
      | Inr f0 \<Rightarrow>
          changes_once b ds f0 \<and>
          (case DrawPixelAll b ds f0 of
             Inl e \<Rightarrow> True
           | Inr f' \<Rightarrow> gestures_change_once b gs f'))"

text \<open>The coordinate of a draw call, and the colours of all layers as a reader sees them:
  a coordinate without an entry reads as transparent.\<close>

definition coord :: "int \<times> int \<times> Color \<Rightarrow> IntVec2" where
  "coord d = IntVec2 (fst d) (fst (snd d))"

definition pixel_view :: "File \<Rightarrow> (IntVec2 \<Rightarrow> Color) list" where
  "pixel_view f = map (\<lambda>l. color_at (PixelData l)) (Layers f)"

text \<open>
  What \<^verbatim>\<open>Undo\<close> and \<^verbatim>\<open>Redo\<close> of pixel entries do to one coordinate of one
  layer. A cell is the entry of a pixel map at a coordinate; \<open>delta_at\<close> is what a log
  entry records for the coordinate \<open>p\<close> of layer \<open>i\<close>.
\<close>

type_synonym cell = "Color option"

definition cell :: "File \<Rightarrow> nat \<Rightarrow> IntVec2 \<Rightarrow> cell" where
  "cell f i p = PixelData (Layers f ! i) p"

definition cell_color :: "cell \<Rightarrow> Color" where
  "cell_color c = (case c of None \<Rightarrow> Transparent | Some x \<Rightarrow> x)"

fun delta_at :: "HistoryItem \<Rightarrow> nat \<Rightarrow> IntVec2 \<Rightarrow> PixelStateData option" where
  "delta_at (HistoryPixel pixelState layerIndex) i p = (if i = nat layerIndex then pixelState p else None)"
| "delta_at _ i p = None"

definition undo_cell :: "PixelStateData option \<Rightarrow> cell \<Rightarrow> cell" where
  "undo_cell r c = (case r of Some psd \<Rightarrow> Some (Prev psd) | None \<Rightarrow> c)"

definition redo_cell :: "PixelStateData option \<Rightarrow> cell \<Rightarrow> cell" where
  "redo_cell r c = (case r of Some psd \<Rightarrow> Some (Current psd) | None \<Rightarrow> c)"

text \<open>
  A record fits the cell before and after its gesture when it holds the colour before
  and the entry after; without a record the cell is as before, or holds the colour it
  had.
\<close>

definition delta_fits :: "PixelStateData option \<Rightarrow> cell \<Rightarrow> cell \<Rightarrow> bool" where
  "delta_fits r c0 c1 =
     (case r of
        None \<Rightarrow> c1 = c0 \<or> c1 = Some (cell_color c0)
      | Some psd \<Rightarrow> Prev psd = cell_color c0 \<and> c1 = Some (Current psd))"

fun linked :: "cell \<Rightarrow> PixelStateData option list \<Rightarrow> cell \<Rightarrow> bool" where
  "linked c [] c' = (c' = c)"
| "linked c (r # rs) c' = (\<exists>c1. delta_fits r c c1 \<and> linked c1 rs c')"

fun last_delta :: "PixelStateData option list \<Rightarrow> PixelStateData option" where
  "last_delta [] = None"
| "last_delta (r # rs) = (case last_delta rs of Some psd \<Rightarrow> Some psd | None \<Rightarrow> r)"

text \<open>A pixel entry that names one of the first \<open>n\<close> layers.\<close>

fun pixel_entry :: "nat \<Rightarrow> HistoryItem \<Rightarrow> bool" where
  "pixel_entry n (HistoryPixel pixelState layerIndex) = (0 \<le> layerIndex \<and> layerIndex < int n)"
| "pixel_entry n _ = False"

text \<open>Two documents have the same shape when they agree on the current layer, the number
  of layers and the bound of the log.\<close>

definition same_shape :: "File \<Rightarrow> File \<Rightarrow> bool" where
  "same_shape f f' \<longleftrightarrow>
     CurrentLayer f' = CurrentLayer f \<and> length (Layers f') = length (Layers f) \<and>
     HistoryMaxActions f' = HistoryMaxActions f"

text \<open>
  Two gestures: the first draws red twice at \<open>(1, 1)\<close>, as a held mouse button does, and
  blue at \<open>(2, 2)\<close>; the second draws blue at \<open>(1, 1)\<close>.
\<close>

definition two_gestures :: "(int \<times> int \<times> Color) list list" where
  "two_gestures = [[(1, 1, Red), (1, 1, Red), (2, 2, Blue)], [(1, 1, Blue)]]"

text \<open>A new document whose log keeps one entry only.\<close>

definition short_log_doc :: File where
  "short_log_doc = (NewFile 4 4 8 8)\<lparr>HistoryMaxActions := 1\<rparr>"

section \<open>Example documents\<close>

text \<open>
  A document whose log holds one compound entry of two edits of the same pixel, first
  transparent to red, then red to blue; the pixel is blue.
\<close>

definition compound_doc :: File where
  "compound_doc =
     (NewFile 4 4 8 8)
       \<lparr>Layers := [(NewLayer 4 4 ''background'' Transparent True)\<lparr>PixelData := [IntVec2 0 0 \<mapsto> Blue]\<rparr>,
                   NewLayer 4 4 ''hidden'' Transparent True],
        History := [CompoundHistory
                      [HistoryPixel [IntVec2 0 0 \<mapsto> \<lparr>Prev = Transparent, Current = Red\<rparr>] 0,
                       HistoryPixel [IntVec2 0 0 \<mapsto> \<lparr>Prev = Red, Current = Blue\<rparr>] 0]]\<rparr>"

text \<open>
  A document with a floating selection, whose log holds one edit of the pixel \<open>(1, 1)\<close>.
\<close>

definition selecting_doc :: File where
  "selecting_doc =
     (NewFile 4 4 8 8)
       \<lparr>Layers := [(NewLayer 4 4 ''background'' Transparent True)\<lparr>PixelData := [IntVec2 1 1 \<mapsto> Red]\<rparr>,
                   NewLayer 4 4 ''hidden'' Transparent True],
        History := [HistoryPixel [IntVec2 1 1 \<mapsto> \<lparr>Prev = Transparent, Current = Red\<rparr>] 0],
        DoingSelection := True,
        Selection := [IntVec2 0 0 \<mapsto> Blue],
        SelectionMoving := True\<rparr>"

text \<open>A document with one red pixel on its first layer and an empty log.\<close>

definition one_pixel_doc :: File where
  "one_pixel_doc =
     (NewFile 4 4 8 8)
       \<lparr>Layers := [(NewLayer 4 4 ''background'' Transparent True)\<lparr>PixelData := [IntVec2 1 1 \<mapsto> Red]\<rparr>,
                   NewLayer 4 4 ''hidden'' Transparent True]\<rparr>"

section \<open>Properties of the history log\<close>

lemma go_slice_tl: "xs \<noteq> [] \<Longrightarrow> go_slice xs 1 (int (length xs)) = Inr (tl xs)"
  by (cases xs) (simp_all add: go_slice_def)

text \<open>
  Under the invariant \<^verbatim>\<open>AppendHistory\<close> never panics: it cuts the log at the undo
  cursor, drops the oldest entry when the log is full, and appends.
\<close>

lemma AppendHistory_ok:
  assumes "history_ok f"
  shows "AppendHistory a f =
           Inr (f\<lparr>History :=
                   (let h = take (length (History f) - nat (historyOffset f)) (History f)
                    in (if length h = nat (HistoryMaxActions f) then tl h else h) @ [a]),
                  historyOffset := 0\<rparr>)"
proof -
  let ?H = "History f"
  let ?h = "take (length ?H - nat (historyOffset f)) ?H"
  from assms have M: "0 < HistoryMaxActions f" and L: "int (length ?H) \<le> HistoryMaxActions f"
    and O: "0 \<le> historyOffset f" "historyOffset f \<le> int (length ?H)"
    by (simp_all add: history_ok_def)
  have s1: "go_slice ?H 0 (int (length ?H) - historyOffset f) = Inr ?h"
    using O by (simp add: go_slice_def nat_diff_distrib)
  have len: "int (length ?h) \<le> HistoryMaxActions f"
    using L by simp
  show ?thesis
  proof (cases "length ?h = nat (HistoryMaxActions f)")
    case True
    then have eq: "int (length ?h) = HistoryMaxActions f" using M by linarith
    have "?h \<noteq> []" using eq M by auto
    then have "go_slice ?h 1 (int (length ?h)) = Inr (tl ?h)" by (rule go_slice_tl)
    then have "go_slice ?h (int (length ?h) - HistoryMaxActions f + 1) (HistoryMaxActions f) = Inr (tl ?h)"
      by (simp only: eq diff_self add_0)
    then show ?thesis
      using True eq s1 by (simp add: AppendHistory_def Let_def)
  next
    case False
    then have "\<not> HistoryMaxActions f \<le> int (length ?h)" using len M by linarith
    then show ?thesis
      using False s1 by (simp add: AppendHistory_def Let_def)
  qed
qed

lemma AppendHistory_history_ok:
  assumes "history_ok f" "AppendHistory a f = Inr f'"
  shows "history_ok f'"
  using assms(2) assms(1) unfolding AppendHistory_ok [OF assms(1)]
  by (auto simp: history_ok_def Let_def split: if_splits)

lemma evict_is_drop:
  assumes "length h \<le> M" "0 < M"
  shows "(if length h = M then tl h else h) @ [a] = drop (length (h @ [a]) - M) (h @ [a])"
  using assms by (cases h) auto

lemma drop_drop_append:
  "drop (length (drop (length xs - M) xs @ ys) - M) (drop (length xs - M) xs @ ys)
     = drop (length (xs @ ys) - M) (xs @ ys)"
  by (cases "length xs \<le> M") (auto simp: add.commute)

text \<open>
  A non-empty run of appends leaves the last \<open>HistoryMaxActions\<close> elements of what was
  before the cursor followed by the appended entries.
\<close>

lemma AppendHistoryAll_ok:
  assumes "history_ok f" "as \<noteq> []"
  shows "\<exists>f'. AppendHistoryAll as f = Inr f' \<and> history_ok f' \<and> historyOffset f' = 0 \<and>
           HistoryMaxActions f' = HistoryMaxActions f \<and>
           History f' =
             drop (length (take (length (History f) - nat (historyOffset f)) (History f) @ as) -
                     nat (HistoryMaxActions f))
                  (take (length (History f) - nat (historyOffset f)) (History f) @ as)"
  using assms
proof (induction as arbitrary: f)
  case Nil
  then show ?case by simp
next
  case (Cons a as)
  let ?M = "nat (HistoryMaxActions f)"
  let ?h = "take (length (History f) - nat (historyOffset f)) (History f)"
  let ?f1 = "f\<lparr>History := (if length ?h = ?M then tl ?h else ?h) @ [a], historyOffset := 0\<rparr>"
  have step: "AppendHistory a f = Inr ?f1"
    using AppendHistory_ok [OF Cons.prems(1), of a] by (simp add: Let_def)
  have ok1: "history_ok ?f1"
    using AppendHistory_history_ok [OF Cons.prems(1) step] .
  have hM: "length ?h \<le> ?M" "0 < ?M"
    using Cons.prems(1) by (auto simp: history_ok_def)
  have H1: "History ?f1 = drop (length (?h @ [a]) - ?M) (?h @ [a])"
    using evict_is_drop [OF hM, of a] by simp
  show ?case
  proof (cases "as = []")
    case True
    with step ok1 H1 show ?thesis by simp
  next
    case False
    have "\<exists>f'. AppendHistoryAll as ?f1 = Inr f' \<and> history_ok f' \<and> historyOffset f' = 0 \<and>
            HistoryMaxActions f' = HistoryMaxActions f \<and>
            History f' = drop (length (History ?f1 @ as) - ?M) (History ?f1 @ as)"
      using Cons.IH [OF ok1 False] by simp
    then obtain f' where
      f': "AppendHistoryAll as ?f1 = Inr f'" "history_ok f'" "historyOffset f' = 0"
          "HistoryMaxActions f' = HistoryMaxActions f"
          "History f' = drop (length (History ?f1 @ as) - ?M) (History ?f1 @ as)"
      by blast
    have "History f' = drop (length ((?h @ [a]) @ as) - ?M) ((?h @ [a]) @ as)"
      unfolding f'(5) H1 by (rule drop_drop_append)
    with f' step show ?thesis by simp
  qed
qed

text \<open>
  C6. The log is bounded. Under the invariant of the log every \<^verbatim>\<open>AppendHistory\<close>
  returns, keeps the invariant (so the length stays at most \<open>HistoryMaxActions\<close>), and
  when the log before the cursor is full it drops the oldest entry before it appends.
  Appending \<open>HistoryMaxActions + k\<close> entries leaves exactly \<open>HistoryMaxActions\<close>
  entries: the last that many of the appended ones, which for \<open>k \<le> HistoryMaxActions\<close>
  are the \<open>HistoryMaxActions - k\<close> not yet evicted of the first \<open>HistoryMaxActions\<close>,
  followed by the \<open>k\<close> most recent, in order.
\<close>

theorem AppendHistory_bounded:
  assumes "history_ok f"
  shows "(\<exists>f'. AppendHistory a f = Inr f' \<and> history_ok f' \<and>
               int (length (History f')) \<le> HistoryMaxActions f' \<and>
               (let h = take (length (History f) - nat (historyOffset f)) (History f)
                in History f' = (if length h = nat (HistoryMaxActions f) then tl h else h) @ [a])) \<and>
         (length as = nat (HistoryMaxActions f) + k \<longrightarrow>
            (\<exists>f'. AppendHistoryAll as f = Inr f' \<and>
                  length (History f') = nat (HistoryMaxActions f) \<and>
                  History f' = drop k as \<and>
                  (k \<le> nat (HistoryMaxActions f) \<longrightarrow>
                     History f' = drop k (take (nat (HistoryMaxActions f)) as) @
                                  drop (nat (HistoryMaxActions f)) as)))"
proof (intro conjI impI)
  let ?M = "nat (HistoryMaxActions f)"
  show "\<exists>f'. AppendHistory a f = Inr f' \<and> history_ok f' \<and>
               int (length (History f')) \<le> HistoryMaxActions f' \<and>
               (let h = take (length (History f) - nat (historyOffset f)) (History f)
                in History f' = (if length h = nat (HistoryMaxActions f) then tl h else h) @ [a])"
    using AppendHistory_ok [OF assms, of a] AppendHistory_history_ok [OF assms, of a]
    by (auto simp: Let_def history_ok_def)
  assume len: "length as = ?M + k"
  have M: "0 < ?M" using assms by (simp add: history_ok_def)
  then have ne: "as \<noteq> []" using len by auto
  let ?h = "take (length (History f) - nat (historyOffset f)) (History f)"
  from AppendHistoryAll_ok [OF assms ne] obtain f' where
    f': "AppendHistoryAll as f = Inr f'" "History f' = drop (length (?h @ as) - ?M) (?h @ as)"
    by blast
  have "History f' = drop k as" using f'(2) len by simp
  moreover have "k \<le> ?M \<Longrightarrow> drop k as = drop k (take ?M as) @ drop ?M as"
    using len by (metis append_take_drop_id drop_append length_take min.absorb2 le_add1 diff_is_0_eq drop0)
  ultimately show "\<exists>f'. AppendHistoryAll as f = Inr f' \<and>
                  length (History f') = nat (HistoryMaxActions f) \<and>
                  History f' = drop k as \<and>
                  (k \<le> nat (HistoryMaxActions f) \<longrightarrow>
                     History f' = drop k (take (nat (HistoryMaxActions f)) as) @
                                  drop (nat (HistoryMaxActions f)) as)"
    using f'(1) len by auto
qed

text \<open>
  A log bounded at two entries that receives three: the first is gone, the other two
  remain in order.
\<close>

theorem AppendHistory_bounded_witness:
  "history_ok ((NewFile 4 4 8 8)\<lparr>HistoryMaxActions := 2\<rparr>) \<and>
   length [HistoryLayer HistoryLayerActionCreate 1, HistoryLayer HistoryLayerActionCreate 2,
           HistoryLayer HistoryLayerActionCreate 3] = nat 2 + 1 \<and> (1::nat) \<le> nat 2 \<and>
   (\<exists>f'. AppendHistoryAll
           [HistoryLayer HistoryLayerActionCreate 1, HistoryLayer HistoryLayerActionCreate 2,
            HistoryLayer HistoryLayerActionCreate 3] ((NewFile 4 4 8 8)\<lparr>HistoryMaxActions := 2\<rparr>) = Inr f' \<and>
         History f' = [HistoryLayer HistoryLayerActionCreate 2, HistoryLayer HistoryLayerActionCreate 3])"
proof -
  have ok: "history_ok ((NewFile 4 4 8 8)\<lparr>HistoryMaxActions := 2\<rparr>)"
    by (simp add: history_ok_def NewFile_def)
  show ?thesis
    using ok AppendHistory_bounded [OF ok, of "HistoryLayer HistoryLayerActionCreate 1"
        "[HistoryLayer HistoryLayerActionCreate 1, HistoryLayer HistoryLayerActionCreate 2,
            HistoryLayer HistoryLayerActionCreate 3]" 1]
    by (auto simp del: AppendHistoryAll.simps)
qed

section \<open>Frame lemmas\<close>

text \<open>An opaque colour replaces whatever is beneath it.\<close>

lemma blend_opaque: "A src = 255 \<Longrightarrow> BlendWithOpacity dst src = src"
  by (cases src) (simp add: BlendWithOpacity_def over_def)

lemma blend_red: "BlendWithOpacity Transparent Red = Red"
  by (simp add: blend_opaque Red_def)

lemma blend_blue: "BlendWithOpacity Red Blue = Blue"
  by (simp add: blend_opaque Blue_def)

lemma Resize_PixelData [simp]: "PixelData (Resize cf w h d l) = PixelData l"
  by (simp add: Resize_def Let_def split: prod.splits)

text \<open>
  The layer operations that \<^verbatim>\<open>Undo\<close> and \<^verbatim>\<open>Redo\<close> call with
  \<^verbatim>\<open>appendHistory\<close> unset leave the log, its bound and the undo offset alone.
\<close>

lemma DeleteLayer_log:
  "DeleteLayer i False f = Inr (err, f') \<Longrightarrow>
     History f' = History f \<and> historyOffset f' = historyOffset f \<and>
     HistoryMaxActions f' = HistoryMaxActions f"
  by (auto simp: DeleteLayer_def SetCurrentLayer_def Let_def split: if_splits sum.splits)

lemma RestoreLayer_log:
  "RestoreLayer i f = Inr (err, f') \<Longrightarrow>
     History f' = History f \<and> historyOffset f' = historyOffset f \<and>
     HistoryMaxActions f' = HistoryMaxActions f"
  by (auto simp: RestoreLayer_def split: if_splits)

lemma MoveLayerUp_log:
  "MoveLayerUp i False f = Inr (err, f') \<Longrightarrow>
     History f' = History f \<and> historyOffset f' = historyOffset f \<and>
     HistoryMaxActions f' = HistoryMaxActions f"
  by (auto simp: MoveLayerUp_def Let_def split: if_splits sum.splits)

lemma MoveLayerDown_log:
  "MoveLayerDown i False f = Inr (err, f') \<Longrightarrow>
     History f' = History f \<and> historyOffset f' = historyOffset f \<and>
     HistoryMaxActions f' = HistoryMaxActions f"
  by (auto simp: MoveLayerDown_def Let_def split: if_splits sum.splits)



lemma restore_layer_states_log:
  "restore_layer_states pds i w h f = Inr f' \<Longrightarrow>
     History f' = History f \<and> historyOffset f' = historyOffset f \<and>
     HistoryMaxActions f' = HistoryMaxActions f"
proof (induction pds arbitrary: i f)
  case Nil
  then show ?case by simp
next
  case (Cons pd pds)
  from Cons.prems have lt: "i < length (Layers f)"
    by (simp split: if_splits)
  with Cons.prems have
    "restore_layer_states pds (Suc i) w h
       (f\<lparr>Layers := (Layers f)[i := Resize f w h ResizeTL ((Layers f ! i)\<lparr>PixelData := pd\<rparr>)]\<rparr>) = Inr f'"
    by simp
  from Cons.IH [OF this] show ?case by simp
qed

lemma Undo_process_pixel_log:
  "Undo_process (HistoryPixel ps li) f = Inr f' \<Longrightarrow>
     History f' = History f \<and> historyOffset f' = historyOffset f \<and>
     HistoryMaxActions f' = HistoryMaxActions f"
  by (cases "DoingSelection f")
     (auto simp: Let_def SetCurrentLayer_def GetCurrentLayer_def go_index_def split: if_splits)

lemma Undo_process_layer_log:
  "Undo_process (HistoryLayer action li) f = Inr f' \<Longrightarrow>
     History f' = History f \<and> historyOffset f' = historyOffset f \<and>
     HistoryMaxActions f' = HistoryMaxActions f"
proof (cases action)
  case HistoryLayerActionDelete
  assume "Undo_process (HistoryLayer action li) f = Inr f'"
  then obtain err where "RestoreLayer li f = Inr (err, f')"
    using HistoryLayerActionDelete by (auto split: sum.splits)
  then show ?thesis by (rule RestoreLayer_log)
next
  case HistoryLayerActionCreate
  assume "Undo_process (HistoryLayer action li) f = Inr f'"
  then obtain err where "DeleteLayer li False f = Inr (err, f')"
    using HistoryLayerActionCreate by (auto split: sum.splits)
  then show ?thesis by (rule DeleteLayer_log)
next
  case HistoryLayerActionMoveUp
  assume "Undo_process (HistoryLayer action li) f = Inr f'"
  then obtain err where "MoveLayerUp li False f = Inr (err, f')"
    using HistoryLayerActionMoveUp by (auto split: sum.splits)
  then show ?thesis by (rule MoveLayerUp_log)
next
  case HistoryLayerActionMoveDown
  assume "Undo_process (HistoryLayer action li) f = Inr f'"
  then obtain err where "MoveLayerDown li False f = Inr (err, f')"
    using HistoryLayerActionMoveDown by (auto split: sum.splits)
  then show ?thesis by (rule MoveLayerDown_log)
qed


lemma Undo_process_log:
  "Undo_process a f = Inr f' \<Longrightarrow>
     History f' = History f \<and> historyOffset f' = historyOffset f \<and>
     HistoryMaxActions f' = HistoryMaxActions f"
  "Undo_process_actions as f = Inr f' \<Longrightarrow>
     History f' = History f \<and> historyOffset f' = historyOffset f \<and>
     HistoryMaxActions f' = HistoryMaxActions f"
proof (induction a f and as f arbitrary: f' and f' rule: Undo_process_Undo_process_actions.induct)
  case (1 actions f)
  then show ?case by simp
next
  case (2 pixelState layerIndex f)
  from "2.prems" show ?case by (rule Undo_process_pixel_log)
next
  case (3 action layerIndex f)
  from "3.prems" show ?case by (rule Undo_process_layer_log)
next
  case (4 prevLayerState currentLayerState prevWidth prevHeight currentWidth currentHeight f)
  from "4.prems" have
    "restore_layer_states prevLayerState 0 prevWidth prevHeight
       (f\<lparr>CanvasWidthResizePreview := prevWidth, CanvasHeightResizePreview := prevHeight,
          CanvasWidth := prevWidth, CanvasHeight := prevHeight\<rparr>) = Inr f'"
    by simp
  from restore_layer_states_log [OF this] show ?case by simp
next
  case (5 f)
  then show ?case by simp
next
  case (6 a rest f)
  from "6.prems" obtain f1 where
    a: "Undo_process a f = Inr f1" and r: "Undo_process_actions rest f1 = Inr f'"
    by (auto split: sum.splits)
  from "6.IH"(1) [OF a] "6.IH"(2) [OF a r] show ?case by simp
qed

lemma Undo_log:
  assumes "Undo f = Inr f'"
  shows "History f' = History f \<and> HistoryMaxActions f' = HistoryMaxActions f \<and>
         historyOffset f' =
           (if historyOffset f < int (length (History f)) then historyOffset f + 1
            else historyOffset f)"
proof (cases "historyOffset f < int (length (History f))")
  case True
  with assms obtain h where
    "Undo_process h (f\<lparr>historyOffset := historyOffset f + 1\<rparr>) = Inr f'"
    by (auto simp: Undo_def Let_def split: sum.splits)
  from Undo_process_log(1) [OF this] True show ?thesis by simp
next
  case False
  with assms show ?thesis by (simp add: Undo_def)
qed

lemma Undo_history_ok:
  assumes "history_ok f" "Undo f = Inr f'"
  shows "history_ok f'"
  using assms(1) Undo_log [OF assms(2)] by (auto simp: history_ok_def)

lemma Undo_times_log:
  assumes "history_ok f" "Undo_times n f = Inr f'"
  shows "history_ok f' \<and> History f' = History f \<and> HistoryMaxActions f' = HistoryMaxActions f \<and>
         historyOffset f \<le> historyOffset f' \<and>
         (0 < n \<longrightarrow> int (length (History f)) - historyOffset f' < HistoryMaxActions f)"
  using assms
proof (induction n arbitrary: f)
  case 0
  then show ?case by simp
next
  case (Suc n)
  from Suc.prems(2) obtain f1 where u: "Undo f = Inr f1" and r: "Undo_times n f1 = Inr f'"
    by (auto split: sum.splits)
  have ok1: "history_ok f1" using Undo_history_ok [OF Suc.prems(1) u] .
  from Suc.IH [OF ok1 r] Undo_log [OF u] Suc.prems(1) show ?case
    by (auto simp: history_ok_def split: if_splits)
qed

lemma Redo_at_zero: "historyOffset f = 0 \<Longrightarrow> Redo f = Inr f"
  by (simp add: Redo_def)

text \<open>
  C7. After \<open>M \<ge> 1\<close> calls of \<^verbatim>\<open>Undo\<close> on a document with a sound log,
  \<^verbatim>\<open>AppendHistory\<close> of any entry returns, cuts the entries beyond the undo cursor,
  puts the new entry last and resets the undo offset to zero; \<^verbatim>\<open>Redo\<close> then
  returns the document as it is.
\<close>

theorem AppendHistory_invalidates_redo:
  assumes "history_ok f0" and "0 < M" and "Undo_times M f0 = Inr f"
  shows "\<exists>f'. AppendHistory a f = Inr f' \<and>
              History f' = take (length (History f) - nat (historyOffset f)) (History f) @ [a] \<and>
              historyOffset f' = 0 \<and>
              Redo f' = Inr f'"
proof -
  from Undo_times_log [OF assms(1,3)] assms(2) have
    ok: "history_ok f" and off: "int (length (History f)) - historyOffset f < HistoryMaxActions f"
    by simp_all
  let ?h = "take (length (History f) - nat (historyOffset f)) (History f)"
  have "length ?h \<noteq> nat (HistoryMaxActions f)"
    using ok off by (auto simp: history_ok_def)
  with AppendHistory_ok [OF ok, of a] have
    "AppendHistory a f = Inr (f\<lparr>History := ?h @ [a], historyOffset := 0\<rparr>)"
    by (simp add: Let_def)
  then show ?thesis by (simp add: Redo_at_zero)
qed

text \<open>
  One pixel entry in the log, undone once: the entry appended next is the only one left
  and \<^verbatim>\<open>Redo\<close> does nothing.
\<close>

theorem AppendHistory_invalidates_redo_witness:
  "history_ok ((NewFile 4 4 8 8)\<lparr>History := [HistoryPixel Map.empty 0]\<rparr>) \<and> (0::nat) < 1 \<and>
   (\<exists>f f'. Undo_times 1 ((NewFile 4 4 8 8)\<lparr>History := [HistoryPixel Map.empty 0]\<rparr>) = Inr f \<and>
           AppendHistory (HistoryLayer HistoryLayerActionCreate 1) f = Inr f' \<and>
           History f' = [HistoryLayer HistoryLayerActionCreate 1] \<and>
           historyOffset f' = 0 \<and> Redo f' = Inr f')"
proof -
  let ?f0 = "(NewFile 4 4 8 8)\<lparr>History := [HistoryPixel Map.empty 0]\<rparr>"
  have ok: "history_ok ?f0"
    by (simp add: history_ok_def NewFile_def)
  obtain f where u: "Undo_times 1 ?f0 = Inr f"
    and H: "History f = [HistoryPixel Map.empty 0]" and O: "historyOffset f = 1"
    by (simp add: NewFile_def Undo_def go_index_def GetCurrentLayer_def SetCurrentLayer_def)
  from AppendHistory_invalidates_redo [OF ok _ u, of "HistoryLayer HistoryLayerActionCreate 1"]
  obtain f' where "AppendHistory (HistoryLayer HistoryLayerActionCreate 1) f = Inr f'"
    "History f' = take (length (History f) - nat (historyOffset f)) (History f) @
                  [HistoryLayer HistoryLayerActionCreate 1]"
    "historyOffset f' = 0" "Redo f' = Inr f'"
    by auto
  with ok u H O show ?thesis by auto
qed

section \<open>Evaluating concrete runs\<close>

lemmas run_defs = NewFile_def NewLayer_def go_index_def go_slice_def GetCurrentLayer_def
  SetCurrentLayer_def Redraw_def Undo_def Redo_def AppendHistory_def DrawPixel_def
  record_pixel_def color_at_def gesture_def Let_def

lemma colours_differ: "Red \<noteq> Transparent" "Blue \<noteq> Transparent" "Red \<noteq> Blue"
  by (simp_all add: Red_def Blue_def Transparent_def)

lemma go_index_last: "go_index (xs @ [a]) (int (length (xs @ [a])) - 1) = Inr a"
  by (simp add: go_index_def)

section \<open>Drawing without recording\<close>

text \<open>
  C9. With \<^verbatim>\<open>saveToHistory\<close> unset \<^verbatim>\<open>DrawPixel\<close> returns the document it was
  given, whatever the coordinate and the colour: pixel maps, surfaces and log are the
  same. The only other outcome is the panic of \<^verbatim>\<open>GetCurrentLayer\<close> when the
  current layer index is outside the layer list, which writes nothing either.
\<close>

theorem DrawPixel_unsaved_changes_nothing:
  "DrawPixel b x y color False f =
     (if 0 \<le> CurrentLayer f \<and> CurrentLayer f < int (length (Layers f))
      then Inr f else Inl IndexOutOfRange)"
  by (simp add: DrawPixel_def GetCurrentLayer_def go_index_def)

section \<open>Undo of a pixel edit under a selection\<close>

text \<open>
  C10. When \<^verbatim>\<open>Undo\<close> processes a \<^verbatim>\<open>HistoryPixel\<close> while a selection is
  active, the selection map is emptied and both selection flags are cleared; the run
  equals the run on the document with the selection already discarded, so the discard
  comes first; and the named layer receives the recorded previous colours and nothing
  else, so the selection is not committed. This holds for the closure \<^verbatim>\<open>process\<close>
  (hence inside a compound entry too) and for \<^verbatim>\<open>Undo\<close> when the entry at the
  cursor is a pixel edit.
\<close>

theorem Undo_pixel_discards_selection:
  assumes "DoingSelection f" and "0 \<le> li" and "li < int (length (Layers f))"
  shows "(\<exists>f'. Undo_process (HistoryPixel ps li) f = Inr f' \<and>
              Selection f' = Map.empty \<and> \<not> DoingSelection f' \<and> \<not> SelectionMoving f' \<and>
              Layers f' = (Layers f)[nat li := Redraw ((Layers f ! nat li)\<lparr>PixelData :=
                 (\<lambda>pos. case ps pos of Some psd \<Rightarrow> Some (Prev psd)
                                      | None \<Rightarrow> PixelData (Layers f ! nat li) pos)\<rparr>)] \<and>
              Undo_process (HistoryPixel ps li) f =
                Undo_process (HistoryPixel ps li)
                  (f\<lparr>Selection := Map.empty, DoingSelection := False, SelectionMoving := False\<rparr>)) \<and>
         (historyOffset f < int (length (History f)) \<and>
          go_index (History f) (int (length (History f)) - (historyOffset f + 1)) =
            Inr (HistoryPixel ps li) \<longrightarrow>
          (\<exists>f'. Undo f = Inr f' \<and>
              Selection f' = Map.empty \<and> \<not> DoingSelection f' \<and> \<not> SelectionMoving f' \<and>
              Layers f' = (Layers f)[nat li := Redraw ((Layers f ! nat li)\<lparr>PixelData :=
                 (\<lambda>pos. case ps pos of Some psd \<Rightarrow> Some (Prev psd)
                                      | None \<Rightarrow> PixelData (Layers f ! nat li) pos)\<rparr>)]))"
  using assms
  by (simp add: Undo_def Let_def SetCurrentLayer_def GetCurrentLayer_def go_index_def)

text \<open>
  The document with a selection: after \<^verbatim>\<open>Undo\<close> the selection is gone, the edited
  pixel is transparent again and the selected blue pixel was not stamped on the layer.
\<close>

theorem Undo_pixel_discards_selection_witness:
  "DoingSelection selecting_doc \<and> (0::int) \<le> 0 \<and> 0 < int (length (Layers selecting_doc)) \<and>
   (\<exists>f'. Undo selecting_doc = Inr f' \<and>
         Selection f' = Map.empty \<and> \<not> DoingSelection f' \<and> \<not> SelectionMoving f' \<and>
         PixelData (Layers f' ! 0) (IntVec2 1 1) = Some Transparent \<and>
         PixelData (Layers f' ! 0) (IntVec2 0 0) = None)"
proof -
  have pre: "DoingSelection selecting_doc" "(0::int) \<le> 0" "0 < int (length (Layers selecting_doc))"
    by (simp_all add: selecting_doc_def NewFile_def)
  have cur: "historyOffset selecting_doc < int (length (History selecting_doc)) \<and>
             go_index (History selecting_doc)
               (int (length (History selecting_doc)) - (historyOffset selecting_doc + 1)) =
             Inr (HistoryPixel [IntVec2 1 1 \<mapsto> \<lparr>Prev = Transparent, Current = Red\<rparr>] 0)"
    by (simp add: selecting_doc_def NewFile_def go_index_def)
  from Undo_pixel_discards_selection [OF pre,
      of "[IntVec2 1 1 \<mapsto> \<lparr>Prev = Transparent, Current = Red\<rparr>]"] cur
  obtain f' where "Undo selecting_doc = Inr f'" "Selection f' = Map.empty"
    "\<not> DoingSelection f'" "\<not> SelectionMoving f'"
    "Layers f' = (Layers selecting_doc)[nat 0 := Redraw ((Layers selecting_doc ! nat 0)\<lparr>PixelData :=
       (\<lambda>pos. case [IntVec2 1 1 \<mapsto> \<lparr>Prev = Transparent, Current = Red\<rparr>] pos of
                 Some psd \<Rightarrow> Some (Prev psd)
               | None \<Rightarrow> PixelData (Layers selecting_doc ! nat 0) pos)\<rparr>)]"
    by blast
  with pre show ?thesis
    by (auto simp: selecting_doc_def NewFile_def NewLayer_def Redraw_def)
qed

section \<open>Resizing the canvas and undoing it\<close>

lemma restore_layer_states_all:
  assumes "i + length pds = length (Layers f)"
  shows "\<exists>f'. restore_layer_states pds i w h f = Inr f' \<and>
              map PixelData (Layers f') = take i (map PixelData (Layers f)) @ pds \<and>
              CanvasWidth f' = CanvasWidth f \<and> CanvasHeight f' = CanvasHeight f"
  using assms
proof (induction pds arbitrary: i f)
  case Nil
  then show ?case by simp
next
  case (Cons pd pds)
  let ?f1 = "f\<lparr>Layers := (Layers f)[i := Resize f w h ResizeTL ((Layers f ! i)\<lparr>PixelData := pd\<rparr>)]\<rparr>"
  from Cons.prems have lt: "i < length (Layers f)" by simp
  have len: "Suc i + length pds = length (Layers ?f1)" using Cons.prems by simp
  from Cons.IH [OF len] obtain f' where
    r: "restore_layer_states pds (Suc i) w h ?f1 = Inr f'"
    and m: "map PixelData (Layers f') = take (Suc i) (map PixelData (Layers ?f1)) @ pds"
    and c: "CanvasWidth f' = CanvasWidth ?f1" "CanvasHeight f' = CanvasHeight ?f1"
    by blast
  have "take (Suc i) (map PixelData (Layers ?f1)) = take i (map PixelData (Layers f)) @ [pd]"
    using lt by (simp add: take_Suc_conv_app_nth map_update)
  with r m c lt show ?case by simp
qed

text \<open>
  C3. On a document with a sound log, \<^verbatim>\<open>ResizeCanvas\<close> to any size with any anchor
  returns, the \<^verbatim>\<open>Undo\<close> that follows returns, and afterwards every layer has the
  pixel map it had before the resize and the canvas has its former width and height.
\<close>

theorem ResizeCanvas_Undo_restores:
  assumes "history_ok f"
  shows "\<exists>f1 f2. ResizeCanvas w2 h2 anchor f = Inr f1 \<and> Undo f1 = Inr f2 \<and>
                 map PixelData (Layers f2) = map PixelData (Layers f) \<and>
                 CanvasWidth f2 = CanvasWidth f \<and> CanvasHeight f2 = CanvasHeight f"
proof -
  let ?layers = "map (Resize f w2 h2 anchor) (Layers f)"
  let ?prev = "map PixelData (Layers f)"
  let ?a = "HistoryResize ?prev (map PixelData ?layers) (CanvasWidth f) (CanvasHeight f) w2 h2"
  let ?g = "f\<lparr>Layers := ?layers\<rparr>"
  have okg: "history_ok ?g" using assms by (simp add: history_ok_def)
  obtain X where app: "AppendHistory ?a ?g = Inr (?g\<lparr>History := X @ [?a], historyOffset := 0\<rparr>)"
    using AppendHistory_ok [OF okg, of ?a] by (simp add: Let_def)
  let ?f1 = "?g\<lparr>History := X @ [?a], historyOffset := 0, CanvasWidth := w2, CanvasHeight := h2\<rparr>"
  have r: "ResizeCanvas w2 h2 anchor f = Inr ?f1"
    using app by (simp add: ResizeCanvas_def Let_def)
  let ?f1' = "?f1\<lparr>historyOffset := 1, CanvasWidthResizePreview := CanvasWidth f,
                   CanvasHeightResizePreview := CanvasHeight f,
                   CanvasWidth := CanvasWidth f, CanvasHeight := CanvasHeight f\<rparr>"
  have u: "Undo ?f1 = restore_layer_states ?prev 0 (CanvasWidth f) (CanvasHeight f) ?f1'"
    using go_index_last [of X ?a] by (simp add: Undo_def)
  have "0 + length ?prev = length (Layers ?f1')" by simp
  from restore_layer_states_all [OF this, of "CanvasWidth f" "CanvasHeight f"] obtain f2 where
    "restore_layer_states ?prev 0 (CanvasWidth f) (CanvasHeight f) ?f1' = Inr f2"
    "map PixelData (Layers f2) = ?prev" "CanvasWidth f2 = CanvasWidth f" "CanvasHeight f2 = CanvasHeight f"
    by auto
  with r u show ?thesis by auto
qed

theorem ResizeCanvas_Undo_restores_witness:
  "history_ok one_pixel_doc \<and>
   (\<exists>f1 f2. ResizeCanvas 2 8 ResizeCC one_pixel_doc = Inr f1 \<and> Undo f1 = Inr f2 \<and>
            map PixelData (Layers f2) = [[IntVec2 1 1 \<mapsto> Red], Map.empty] \<and>
            CanvasWidth f2 = 4 \<and> CanvasHeight f2 = 4)"
proof -
  have ok: "history_ok one_pixel_doc"
    by (simp add: history_ok_def one_pixel_doc_def NewFile_def)
  have "map PixelData (Layers one_pixel_doc) = [[IntVec2 1 1 \<mapsto> Red], Map.empty]"
    "CanvasWidth one_pixel_doc = 4" "CanvasHeight one_pixel_doc = 4"
    by (simp_all add: one_pixel_doc_def NewFile_def NewLayer_def)
  with ok ResizeCanvas_Undo_restores [OF ok, of 2 8 ResizeCC] show ?thesis
    by simp
qed

section \<open>When drawing reads the log\<close>

text \<open>
  C8, as the code has it. The read of the last element of the log stands under
  \<^verbatim>\<open>if oldColor != color\<close>. With a valid current layer and a coordinate on the
  canvas, \<^verbatim>\<open>DrawPixel\<close> with \<^verbatim>\<open>saveToHistory\<close> set returns exactly when the log
  is non-empty or the blended colour equals the colour the pixel has; it panics on the
  index exactly when the log is empty and the two colours differ.
\<close>

theorem DrawPixel_reads_log_on_change:
  assumes "GetCurrentLayer f = Inr layer"
    and "0 \<le> x" and "0 \<le> y" and "x < CanvasWidth f" and "y < CanvasHeight f"
  shows "((\<exists>f'. DrawPixel b x y color True f = Inr f') \<longleftrightarrow>
            (History f \<noteq> [] \<or>
             (if color \<noteq> Transparent then b (color_at (PixelData layer) (IntVec2 x y)) color else color)
               = color_at (PixelData layer) (IntVec2 x y))) \<and>
         (DrawPixel b x y color True f = Inl IndexOutOfRange \<longleftrightarrow>
            (History f = [] \<and>
             (if color \<noteq> Transparent then b (color_at (PixelData layer) (IntVec2 x y)) color else color)
               \<noteq> color_at (PixelData layer) (IntVec2 x y)))"
proof -
  have rp: "History f \<noteq> [] \<Longrightarrow> \<exists>h. record_pixel p old new (History f) = Inr h" for p old new
    by (cases "History f" rule: rev_cases)
       (auto simp: record_pixel_def go_index_def split: HistoryItem.splits)
  have rn: "History f = [] \<Longrightarrow> record_pixel p old new (History f) = Inl IndexOutOfRange" for p old new
    by (simp add: record_pixel_def go_index_def)
  show ?thesis
  proof (cases "History f = []")
    case True
    with assms rn show ?thesis by (auto simp: DrawPixel_def Let_def)
  next
    case False
    from rp [OF False] obtain h where
      "record_pixel (IntVec2 x y) (color_at (PixelData layer) (IntVec2 x y))
         (if color \<noteq> Transparent then b (color_at (PixelData layer) (IntVec2 x y)) color else color)
         (History f) = Inr h"
      by blast
    with assms False show ?thesis by (auto simp: DrawPixel_def Let_def)
  qed
qed

text \<open>On a new document, whose log is empty, drawing red panics.\<close>

theorem DrawPixel_reads_log_on_change_witness:
  "GetCurrentLayer (NewFile 4 4 8 8) = Inr (NewLayer 4 4 ''background'' Transparent True) \<and>
   (0::int) \<le> 1 \<and> 1 < CanvasWidth (NewFile 4 4 8 8) \<and> 1 < CanvasHeight (NewFile 4 4 8 8) \<and>
   History (NewFile 4 4 8 8) = [] \<and>
   DrawPixel BlendWithOpacity 1 1 Red True (NewFile 4 4 8 8) = Inl IndexOutOfRange"
proof -
  have pre: "GetCurrentLayer (NewFile 4 4 8 8) = Inr (NewLayer 4 4 ''background'' Transparent True)"
    "(0::int) \<le> 1" "(0::int) \<le> 1" "1 < CanvasWidth (NewFile 4 4 8 8)" "1 < CanvasHeight (NewFile 4 4 8 8)"
    by (simp_all add: GetCurrentLayer_def go_index_def NewFile_def)
  have "History (NewFile 4 4 8 8) = []" by (simp add: NewFile_def)
  moreover have "BlendWithOpacity (color_at (PixelData (NewLayer 4 4 ''background'' Transparent True))
                    (IntVec2 1 1)) Red \<noteq>
                 color_at (PixelData (NewLayer 4 4 ''background'' Transparent True)) (IntVec2 1 1)"
    using colours_differ by (simp add: NewLayer_def color_at_def blend_red)
  ultimately show ?thesis
    using pre DrawPixel_reads_log_on_change [OF pre, of BlendWithOpacity Red] colours_differ
    by simp
qed

text \<open>
  C8 as stated fails: on a new document, whose log is empty, erasing a pixel that is
  already transparent is not a panic (\<open>isl\<close> recognises the panics), since the log is
  not read.
\<close>

theorem DrawPixel_empty_log_no_panic:
  "History (NewFile 4 4 8 8) = [] \<and>
   \<not> isl (DrawPixel BlendWithOpacity 1 1 Transparent True (NewFile 4 4 8 8))"
  by (simp add: run_defs Transparent_def)

section \<open>Two colours on one pixel within a gesture\<close>

text \<open>
  C2. On a new 4 by 4 document one gesture draws red and then blue at \<open>(1, 1)\<close>, with
  any blending function under which red over transparent is red and blue over red is
  blue. The log then holds one entry, but its record for the pixel is red before and
  blue after, not transparent before: the second call stored the colour it found.
  \<^verbatim>\<open>Undo\<close> leaves the pixel red.
\<close>

theorem DrawPixel_overwrites_previous:
  assumes "b Transparent Red = Red" and "b Red Blue = Blue"
  shows "\<exists>f1 f2. gesture b [(1, 1, Red), (1, 1, Blue)] (NewFile 4 4 8 8) = Inr f1 \<and>
                 History f1 = [HistoryPixel [IntVec2 1 1 \<mapsto> \<lparr>Prev = Red, Current = Blue\<rparr>] 0] \<and>
                 Undo f1 = Inr f2 \<and>
                 PixelData (Layers f2 ! 0) (IntVec2 1 1) = Some Red"
  using assms colours_differ by (simp add: run_defs)

theorem DrawPixel_overwrites_previous_witness:
  "BlendWithOpacity Transparent Red = Red \<and> BlendWithOpacity Red Blue = Blue \<and>
   (\<exists>f1 f2. gesture BlendWithOpacity [(1, 1, Red), (1, 1, Blue)] (NewFile 4 4 8 8) = Inr f1 \<and>
            History f1 = [HistoryPixel [IntVec2 1 1 \<mapsto> \<lparr>Prev = Red, Current = Blue\<rparr>] 0] \<and>
            Undo f1 = Inr f2 \<and>
            PixelData (Layers f2 ! 0) (IntVec2 1 1) = Some Red)"
  using DrawPixel_overwrites_previous [OF blend_red blend_blue] blend_red blend_blue
  by (simp del: DrawPixelAll.simps)

section \<open>The order of a compound entry\<close>

text \<open>
  C4. \<^verbatim>\<open>Undo\<close> processes the actions of a compound entry first to last and
  \<^verbatim>\<open>Redo\<close> last to first. On the example document \<^verbatim>\<open>Undo\<close> therefore ends
  with the previous colour of the second edit (red, where the pixel was transparent
  before both edits), and the \<^verbatim>\<open>Redo\<close> that follows ends with the colour of the
  first edit (red, where the pixel was blue after both).
\<close>

theorem Compound_order_swapped:
  "Undo_process (CompoundHistory [a, b]) f =
     (case Undo_process a f of Inl e \<Rightarrow> Inl e | Inr f' \<Rightarrow> Undo_process b f') \<and>
   Redo_process (CompoundHistory [a, b]) f =
     (case Redo_process b f of Inl e \<Rightarrow> Inl e | Inr f' \<Rightarrow> Redo_process a f') \<and>
   (\<exists>f1 f2. Undo compound_doc = Inr f1 \<and> PixelData (Layers f1 ! 0) (IntVec2 0 0) = Some Red \<and>
            Redo f1 = Inr f2 \<and> PixelData (Layers f2 ! 0) (IntVec2 0 0) = Some Red)"
  by (simp add: compound_doc_def run_defs split: sum.splits)

section \<open>Refused operations\<close>

text \<open>
  Deleting the last addressable layer and merging down the lowest layer, or with too few
  layers, return an error and the document as it was. So do the animation functions for
  an index beyond the length.
\<close>

lemma wrap_int_id: "- (2 ^ 63) \<le> i \<Longrightarrow> i < 2 ^ 63 \<Longrightarrow> wrap_int i = i"
  by (simp add: wrap_int_def)
lemma DeleteLayer_refused:
  "length (Layers f) \<le> 2 \<Longrightarrow> \<exists>msg. DeleteLayer i ah f = Inr (Some msg, f)"
  by (simp add: DeleteLayer_def)

lemma MergeLayerDown_refused:
  "length (Layers f) \<le> 2 \<or> i = 0 \<Longrightarrow> \<exists>msg. MergeLayerDown b i f = Inr (Some msg, f)"
  by (auto simp: MergeLayerDown_def)

lemma Animation_beyond_length_refused:
  assumes "int (length (Animations f)) < i" and "i < 2 ^ 63"
  shows "GetAnimation i f = Inr (None, Some ''Animation not in range'')"
    and "DeleteAnimation i f = Inr (Some ''Animation not in range'', f)"
  using assms wrap_int_id [of "i - 1"]
  by (simp_all add: GetAnimation_def DeleteAnimation_def)

text \<open>
  At an index equal to the length the guard \<^verbatim>\<open>index-1 >= len(f.Animations)\<close> lets
  the call through, and the access that follows panics.
\<close>

lemma GetAnimation_at_length:
  assumes "int (length (Animations f)) < 2 ^ 63"
  shows "GetAnimation (int (length (Animations f))) f = Inl IndexOutOfRange"
    and "DeleteAnimation (int (length (Animations f))) f = Inl SliceBoundsOutOfRange"
  using assms wrap_int_id [of "int (length (Animations f)) - 1"]
  by (simp_all add: GetAnimation_def DeleteAnimation_def go_index_def go_slice_def)

text \<open>
  C5. On a new document, which has no animation, index \<open>0\<close> is out of range;
  \<^verbatim>\<open>GetAnimation\<close> and \<^verbatim>\<open>DeleteAnimation\<close> panic there instead of returning
  an error.
\<close>

theorem Animation_index_panics:
  "GetAnimation 0 (NewFile 4 4 8 8) = Inl IndexOutOfRange \<and>
   DeleteAnimation 0 (NewFile 4 4 8 8) = Inl SliceBoundsOutOfRange"
  by (simp add: GetAnimation_def DeleteAnimation_def wrap_int_def NewFile_def go_index_def go_slice_def)

section \<open>Gestures, undone and redone\<close>

subsection \<open>One cell\<close>

text \<open>
  For one coordinate of one layer: if every record fits the cell before and after its
  gesture, undoing all records, last first, gives back the colour the cell had, and
  redoing them, first to last, gives back the cell as the last gesture left it.
\<close>

lemma undo_cell_fits:
  "delta_fits r c0 c1 \<Longrightarrow> cell_color u = cell_color c1 \<Longrightarrow>
     cell_color (undo_cell r u) = cell_color c0"
  by (auto simp: delta_fits_def undo_cell_def cell_color_def split: option.splits)

lemma linked_undo:
  "linked c0 rs cN \<Longrightarrow> cell_color (foldr undo_cell rs cN) = cell_color c0"
proof (induction rs arbitrary: c0)
  case Nil
  then show ?case by simp
next
  case (Cons r rs)
  from Cons.prems obtain c1 where fit: "delta_fits r c0 c1" and rest: "linked c1 rs cN"
    by auto
  from Cons.IH [OF rest] have "cell_color (foldr undo_cell rs cN) = cell_color c1" .
  with fit show ?case by (simp add: undo_cell_fits)
qed

lemma fold_redo_cell:
  "fold redo_cell rs u = (case last_delta rs of Some psd \<Rightarrow> Some (Current psd) | None \<Rightarrow> u)"
  by (induction rs arbitrary: u) (auto simp: redo_cell_def split: option.splits)

lemma foldr_undo_cell_none: "last_delta rs = None \<Longrightarrow> foldr undo_cell rs c = c"
  by (induction rs) (auto simp: undo_cell_def split: option.splits)

lemma linked_stable:
  "linked (Some x) rs cN \<Longrightarrow> last_delta rs = None \<Longrightarrow> cN = Some x"
proof (induction rs)
  case Nil
  then show ?case by simp
next
  case (Cons r rs)
  from Cons.prems(2) have r: "r = None" and rs: "last_delta rs = None"
    by (auto split: option.splits)
  from Cons.prems(1) r have "linked (Some x) rs cN"
    by (auto simp: delta_fits_def cell_color_def)
  from Cons.IH [OF this rs] show ?case .
qed

lemma linked_final:
  "linked c0 rs cN \<Longrightarrow> last_delta rs = Some psd \<Longrightarrow> cN = Some (Current psd)"
proof (induction rs arbitrary: c0)
  case Nil
  then show ?case by simp
next
  case (Cons r rs)
  from Cons.prems(1) obtain c1 where fit: "delta_fits r c0 c1" and rest: "linked c1 rs cN"
    by auto
  show ?case
  proof (cases "last_delta rs")
    case None
    with Cons.prems(2) have r: "r = Some psd" by simp
    with fit have "c1 = Some (Current psd)" by (simp add: delta_fits_def)
    with rest None show ?thesis by (simp add: linked_stable)
  next
    case (Some d)
    with Cons.prems(2) have "d = psd" by simp
    with Some Cons.IH [OF rest] show ?thesis by simp
  qed
qed

lemma linked_redo:
  assumes "linked c0 rs cN"
  shows "fold redo_cell rs (foldr undo_cell rs cN) = cN"
proof (cases "last_delta rs")
  case None
  then show ?thesis by (simp add: fold_redo_cell foldr_undo_cell_none)
next
  case (Some psd)
  with linked_final [OF assms Some] show ?thesis by (simp add: fold_redo_cell)
qed

lemma linked_append:
  "linked c0 rs c1 \<Longrightarrow> linked c1 rs' c2 \<Longrightarrow> linked c0 (rs @ rs') c2"
  by (induction rs arbitrary: c0) auto


subsection \<open>One draw call, one gesture\<close>

lemma same_shape_refl [simp]: "same_shape f f"
  by (simp add: same_shape_def)

lemma same_shape_trans: "same_shape f g \<Longrightarrow> same_shape g h \<Longrightarrow> same_shape f h"
  by (simp add: same_shape_def)

lemma color_at_cell: "color_at m p = cell_color (m p)"
  by (simp add: color_at_def cell_color_def)

lemma DrawPixel_step:
  assumes cl: "0 \<le> CurrentLayer f" "CurrentLayer f < int (length (Layers f))"
    and H: "History f = hs @ [HistoryPixel ps li]"
  shows "\<exists>f' ps'. DrawPixel b x y c True f = Inr f' \<and>
           History f' = hs @ [HistoryPixel ps' li] \<and>
           historyOffset f' = historyOffset f \<and> same_shape f f' \<and>
           (\<forall>i p. \<not> (i = nat (CurrentLayer f) \<and> p = IntVec2 x y) \<longrightarrow> cell f' i p = cell f i p) \<and>
           (\<forall>p. p \<noteq> IntVec2 x y \<longrightarrow> ps' p = ps p) \<and>
           (\<forall>c0. \<not> rewrites_record b x y c f \<longrightarrow>
                 delta_fits (ps (IntVec2 x y)) c0 (cell f (nat (CurrentLayer f)) (IntVec2 x y)) \<longrightarrow>
                 delta_fits (ps' (IntVec2 x y)) c0 (cell f' (nat (CurrentLayer f)) (IntVec2 x y)))"
proof -
  let ?k = "nat (CurrentLayer f)"
  let ?q = "IntVec2 x y"
  let ?layer = "Layers f ! ?k"
  let ?old = "color_at (PixelData ?layer) ?q"
  let ?new = "if c \<noteq> Transparent then b ?old c else c"
  have k: "?k < length (Layers f)" using cl by simp
  have g: "GetCurrentLayer f = Inr ?layer"
    using cl by (simp add: GetCurrentLayer_def go_index_def)
  have rp: "record_pixel ?q ?old ?new (History f) =
              Inr (hs @ [HistoryPixel (ps(?q \<mapsto> \<lparr>Prev = ?old, Current = ?new\<rparr>)) li])"
    by (simp add: record_pixel_def go_index_def H)
  show ?thesis
  proof (cases "x \<ge> 0 \<and> y \<ge> 0 \<and> x < CanvasWidth f \<and> y < CanvasHeight f")
    case False
    then have "DrawPixel b x y c True f = Inr f"
      using g by (auto simp: DrawPixel_def)
    with H show ?thesis by auto
  next
    case True
    let ?layer' = "?layer\<lparr>PixelData := (PixelData ?layer)(?q \<mapsto> ?new),
                            Canvas := Canvas ?layer @
                              [RlDrawPixel x y (if ?new = Transparent then Black else ?new)]\<rparr>"
    show ?thesis
    proof (cases "?old = ?new")
      case same: True
      let ?f' = "f\<lparr>History := History f, Layers := (Layers f)[?k := ?layer']\<rparr>"
      have d: "DrawPixel b x y c True f = Inr ?f'"
        using g True same by (simp add: DrawPixel_def Let_def)
      have c1: "\<forall>i p. \<not> (i = ?k \<and> p = ?q) \<longrightarrow> cell ?f' i p = cell f i p"
        using k by (auto simp: cell_def nth_list_update)
      have c2: "cell ?f' ?k ?q = Some (cell_color (cell f ?k ?q))"
        using k same by (simp add: cell_def color_at_cell)
      have c3: "\<forall>c0. \<not> rewrites_record b x y c f \<longrightarrow> delta_fits (ps ?q) c0 (cell f ?k ?q) \<longrightarrow>
                  delta_fits (ps ?q) c0 (cell ?f' ?k ?q)"
        unfolding c2 by (auto simp: delta_fits_def cell_color_def split: option.splits)
      show ?thesis
        apply (rule exI [of _ ?f'], rule exI [of _ ps])
        using d H c1 c3 by (simp add: same_shape_def)
    next
      case diff: False
      let ?ps' = "ps(?q \<mapsto> \<lparr>Prev = ?old, Current = ?new\<rparr>)"
      let ?f' = "f\<lparr>History := hs @ [HistoryPixel ?ps' li], Layers := (Layers f)[?k := ?layer']\<rparr>"
      have d: "DrawPixel b x y c True f = Inr ?f'"
        using g True diff rp by (simp add: DrawPixel_def Let_def)
      have c1: "\<forall>i p. \<not> (i = ?k \<and> p = ?q) \<longrightarrow> cell ?f' i p = cell f i p"
        using k by (auto simp: cell_def nth_list_update)
      have c2: "cell ?f' ?k ?q = Some ?new"
        using k by (simp add: cell_def)
      have nr: "\<not> rewrites_record b x y c f \<Longrightarrow> ps ?q = None"
        using g True diff by (auto simp: rewrites_record_def Let_def H go_index_def)
      have c3: "\<forall>c0. \<not> rewrites_record b x y c f \<longrightarrow> delta_fits (ps ?q) c0 (cell f ?k ?q) \<longrightarrow>
                  delta_fits (?ps' ?q) c0 (cell ?f' ?k ?q)"
        unfolding c2 using nr by (auto simp: delta_fits_def cell_def color_at_cell cell_color_def)
      show ?thesis
        apply (rule exI [of _ ?f'], rule exI [of _ ?ps'])
        using d c1 c3 by (simp add: same_shape_def)
    qed
  qed
qed


lemma DrawPixelAll_fits:
  assumes "0 \<le> CurrentLayer f" and "CurrentLayer f < int (length (Layers f))"
    and "History f = hs @ [HistoryPixel ps li]"
    and "changes_once b ds f"
    and "\<forall>p. delta_fits (ps p) (c0 p) (cell f (nat (CurrentLayer f)) p)"
  shows "\<exists>f' ps'. DrawPixelAll b ds f = Inr f' \<and>
           History f' = hs @ [HistoryPixel ps' li] \<and>
           historyOffset f' = historyOffset f \<and> same_shape f f' \<and>
           (\<forall>i p. i \<noteq> nat (CurrentLayer f) \<longrightarrow> cell f' i p = cell f i p) \<and>
           (\<forall>p. delta_fits (ps' p) (c0 p) (cell f' (nat (CurrentLayer f)) p))"
  using assms
proof (induction ds arbitrary: f ps)
  case Nil
  then show ?case by auto
next
  case (Cons d ds)
  obtain x y c where d: "d = (x, y, c)" by (cases d) auto
  let ?q = "IntVec2 x y"
  let ?k = "nat (CurrentLayer f)"
  from DrawPixel_step [OF Cons.prems(1,2,3), of b x y c] obtain f1 ps1 where
    dr: "DrawPixel b x y c True f = Inr f1"
    and H1: "History f1 = hs @ [HistoryPixel ps1 li]"
    and O1: "historyOffset f1 = historyOffset f"
    and S1: "same_shape f f1"
    and C1: "\<forall>i p. \<not> (i = ?k \<and> p = ?q) \<longrightarrow> cell f1 i p = cell f i p"
    and P1: "\<forall>p. p \<noteq> ?q \<longrightarrow> ps1 p = ps p"
    and F1: "\<forall>c0. \<not> rewrites_record b x y c f \<longrightarrow> delta_fits (ps ?q) c0 (cell f ?k ?q) \<longrightarrow>
                  delta_fits (ps1 ?q) c0 (cell f1 ?k ?q)"
    by blast
  have cur: "CurrentLayer f1 = CurrentLayer f" and len: "length (Layers f1) = length (Layers f)"
    using S1 by (simp_all add: same_shape_def)
  have nr: "\<not> rewrites_record b x y c f" and a4: "changes_once b ds f1"
    using Cons.prems(4) dr by (simp_all add: d)
  have a1: "0 \<le> CurrentLayer f1" "CurrentLayer f1 < int (length (Layers f1))"
    using Cons.prems(1,2) cur len by simp_all
  have a6: "\<forall>p. delta_fits (ps1 p) (c0 p) (cell f1 (nat (CurrentLayer f1)) p)"
  proof
    fix p
    show "delta_fits (ps1 p) (c0 p) (cell f1 (nat (CurrentLayer f1)) p)"
    proof (cases "p = ?q")
      case True
      from Cons.prems(5) have "delta_fits (ps ?q) (c0 ?q) (cell f ?k ?q)" by blast
      with F1 nr True cur show ?thesis by simp
    next
      case False
      with P1 C1 Cons.prems(5) cur show ?thesis by simp
    qed
  qed
  from Cons.IH [OF a1 H1 a4 a6] obtain f' ps' where
    r: "DrawPixelAll b ds f1 = Inr f'"
    and H': "History f' = hs @ [HistoryPixel ps' li]"
    and O': "historyOffset f' = historyOffset f1"
    and S': "same_shape f1 f'"
    and C': "\<forall>i p. i \<noteq> nat (CurrentLayer f1) \<longrightarrow> cell f' i p = cell f1 i p"
    and F': "\<forall>p. delta_fits (ps' p) (c0 p) (cell f' (nat (CurrentLayer f1)) p)"
    by blast
  have "DrawPixelAll b (d # ds) f = Inr f'" using dr r by (simp add: d)
  moreover have "same_shape f f'" using S1 S' by (rule same_shape_trans)
  moreover have "\<forall>i p. i \<noteq> ?k \<longrightarrow> cell f' i p = cell f i p"
    using C' C1 cur by simp
  ultimately show ?case using H' O' O1 F' cur by auto
qed

lemma gesture_fits:
  assumes ok: "history_ok f"
    and cl: "0 \<le> CurrentLayer f" "CurrentLayer f < int (length (Layers f))"
    and once: "\<forall>f0. AppendHistory (HistoryPixel Map.empty (CurrentLayer f)) f = Inr f0 \<longrightarrow>
                  changes_once b ds f0"
  shows "\<exists>f' e. gesture b ds f = Inr f' \<and>
           History f' =
             (let h = take (length (History f) - nat (historyOffset f)) (History f)
              in (if length h = nat (HistoryMaxActions f) then tl h else h) @ [e]) \<and>
           historyOffset f' = 0 \<and> same_shape f f' \<and>
           pixel_entry (length (Layers f)) e \<and>
           (\<forall>i p. delta_fits (delta_at e i p) (cell f i p) (cell f' i p))"
proof -
  let ?h = "take (length (History f) - nat (historyOffset f)) (History f)"
  let ?hs = "if length ?h = nat (HistoryMaxActions f) then tl ?h else ?h"
  let ?k = "nat (CurrentLayer f)"
  let ?f0 = "f\<lparr>History := ?hs @ [HistoryPixel Map.empty (CurrentLayer f)], historyOffset := 0\<rparr>"
  have app: "AppendHistory (HistoryPixel Map.empty (CurrentLayer f)) f = Inr ?f0"
    using AppendHistory_ok [OF ok] by (simp add: Let_def)
  have a1: "0 \<le> CurrentLayer ?f0" "CurrentLayer ?f0 < int (length (Layers ?f0))"
    using cl by simp_all
  have a3: "History ?f0 = ?hs @ [HistoryPixel Map.empty (CurrentLayer f)]" by simp
  have a5: "changes_once b ds ?f0" using once app by blast
  have a6: "\<forall>p. delta_fits ((Map.empty :: IntVec2 \<rightharpoonup> PixelStateData) p) (cell f ?k p)
                  (cell ?f0 (nat (CurrentLayer ?f0)) p)"
    by (simp add: delta_fits_def cell_def)
  from DrawPixelAll_fits [OF a1 a3 a5 a6] obtain f' ps' where
    r: "DrawPixelAll b ds ?f0 = Inr f'"
    and H': "History f' = ?hs @ [HistoryPixel ps' (CurrentLayer f)]"
    and O': "historyOffset f' = 0"
    and S': "same_shape ?f0 f'"
    and C': "\<forall>i p. i \<noteq> ?k \<longrightarrow> cell f' i p = cell ?f0 i p"
    and F': "\<forall>p. delta_fits (ps' p) (cell f ?k p) (cell f' ?k p)"
    by auto
  have g: "gesture b ds f = Inr f'" using app r by (simp add: gesture_def)
  have S: "same_shape f f'" using S' by (simp add: same_shape_def)
  have fits: "\<forall>i p. delta_fits (delta_at (HistoryPixel ps' (CurrentLayer f)) i p)
                      (cell f i p) (cell f' i p)"
  proof (intro allI)
    fix i p
    show "delta_fits (delta_at (HistoryPixel ps' (CurrentLayer f)) i p) (cell f i p) (cell f' i p)"
    proof (cases "i = ?k")
      case True
      with F' show ?thesis by simp
    next
      case False
      with C' have "cell f' i p = cell f i p" by (simp add: cell_def)
      with False show ?thesis by (simp add: delta_fits_def)
    qed
  qed
  show ?thesis
    apply (rule exI [of _ f'], rule exI [of _ "HistoryPixel ps' (CurrentLayer f)"])
    using g H' O' S cl fits by (simp add: Let_def)
qed


subsection \<open>A run of gestures\<close>

lemma gestures_linked:
  assumes "history_ok f" and "0 \<le> CurrentLayer f" and "CurrentLayer f < int (length (Layers f))"
    and "gs \<noteq> []" and "gestures_change_once b gs f"
  shows "\<exists>f' es. gestures b gs f = Inr f' \<and> length es = length gs \<and>
           History f' =
             drop (length (take (length (History f) - nat (historyOffset f)) (History f) @ es) -
                     nat (HistoryMaxActions f))
                  (take (length (History f) - nat (historyOffset f)) (History f) @ es) \<and>
           historyOffset f' = 0 \<and> same_shape f f' \<and>
           list_all (pixel_entry (length (Layers f))) es \<and>
           (\<forall>i p. linked (cell f i p) (map (\<lambda>e. delta_at e i p) es) (cell f' i p))"
  using assms
proof (induction gs arbitrary: f)
  case Nil
  then show ?case by simp
next
  case (Cons ds gs)
  let ?M = "nat (HistoryMaxActions f)"
  let ?h = "take (length (History f) - nat (historyOffset f)) (History f)"
  have once: "\<forall>f0. AppendHistory (HistoryPixel Map.empty (CurrentLayer f)) f = Inr f0 \<longrightarrow>
                  changes_once b ds f0"
    using Cons.prems(5) by (auto split: sum.splits)
  from gesture_fits [OF Cons.prems(1,2,3) once] obtain f1 e where
    g: "gesture b ds f = Inr f1"
    and H1: "History f1 = (if length ?h = ?M then tl ?h else ?h) @ [e]"
    and O1: "historyOffset f1 = 0"
    and S1: "same_shape f f1"
    and E1: "pixel_entry (length (Layers f)) e"
    and F1: "\<forall>i p. delta_fits (delta_at e i p) (cell f i p) (cell f1 i p)"
    by (auto simp: Let_def)
  have hM: "length ?h \<le> ?M" "0 < ?M"
    using Cons.prems(1) by (auto simp: history_ok_def)
  have H1': "History f1 = drop (length (?h @ [e]) - ?M) (?h @ [e])"
    using evict_is_drop [OF hM, of e] H1 by simp
  have shape: "CurrentLayer f1 = CurrentLayer f" "length (Layers f1) = length (Layers f)"
    "HistoryMaxActions f1 = HistoryMaxActions f"
    using S1 by (simp_all add: same_shape_def)
  show ?case
  proof (cases "gs = []")
    case True
    have "\<forall>i p. linked (cell f i p) (map (\<lambda>e. delta_at e i p) [e]) (cell f1 i p)"
      using F1 by simp
    with True g H1' O1 S1 E1 show ?thesis
      by (intro exI [of _ f1] exI [of _ "[e]"]) simp
  next
    case False
    have ok1: "history_ok f1"
      using Cons.prems(1) H1 O1 shape hM by (auto simp: history_ok_def)
    have cl1: "0 \<le> CurrentLayer f1" "CurrentLayer f1 < int (length (Layers f1))"
      using Cons.prems(2,3) shape by simp_all
    have d1: "gestures_change_once b gs f1"
      using Cons.prems(5) g by (auto simp: gesture_def split: sum.splits)
    from Cons.IH [OF ok1 cl1 False d1] obtain f' es where
      r: "gestures b gs f1 = Inr f'"
      and L: "length es = length gs"
      and H': "History f' = drop (length (History f1 @ es) - ?M) (History f1 @ es)"
      and O': "historyOffset f' = 0"
      and S': "same_shape f1 f'"
      and E': "list_all (pixel_entry (length (Layers f))) es"
      and F': "\<forall>i p. linked (cell f1 i p) (map (\<lambda>e. delta_at e i p) es) (cell f' i p)"
      using O1 shape by auto
    have "History f' = drop (length ((?h @ [e]) @ es) - ?M) ((?h @ [e]) @ es)"
      unfolding H' H1' by (rule drop_drop_append)
    then have H'': "History f' = drop (length (?h @ e # es) - ?M) (?h @ e # es)" by simp
    have lk: "\<forall>i p. linked (cell f i p) (map (\<lambda>e. delta_at e i p) (e # es)) (cell f' i p)"
      using F1 F' by (simp, blast)
    have "gestures b (ds # gs) f = Inr f'" using g r by simp
    moreover have "same_shape f f'" using S1 S' by (rule same_shape_trans)
    ultimately show ?thesis
      using L H'' O' E1 E' lk
      by (intro exI [of _ f'] exI [of _ "e # es"]) simp
  qed
qed

subsection \<open>Undo and redo of pixel entries\<close>

lemma Undo_pixel_step:
  assumes "0 \<le> historyOffset f" and "historyOffset f < int (length (History f))"
    and "History f ! (length (History f) - Suc (nat (historyOffset f))) = e"
    and "pixel_entry (length (Layers f)) e"
  shows "\<exists>f'. Undo f = Inr f' \<and> History f' = History f \<and>
           historyOffset f' = historyOffset f + 1 \<and> same_shape f f' \<and>
           (\<forall>i p. cell f' i p = undo_cell (delta_at e i p) (cell f i p))"
proof -
  from assms(4) obtain ps li where e: "e = HistoryPixel ps li"
    and li: "0 \<le> li" "li < int (length (Layers f))"
    by (cases e) auto
  have n: "nat (int (length (History f)) - (historyOffset f + 1)) =
           length (History f) - Suc (nat (historyOffset f))"
    using assms(1,2) by linarith
  have gi: "History f ! nat (int (length (History f)) - (historyOffset f + 1)) = e"
    using assms(3) n by simp
  let ?g = "if DoingSelection f
            then f\<lparr>historyOffset := historyOffset f + 1, Selection := Map.empty,
                   DoingSelection := False, SelectionMoving := False\<rparr>
            else f\<lparr>historyOffset := historyOffset f + 1\<rparr>"
  let ?f' = "?g\<lparr>Layers := (Layers f)[nat li := Redraw ((Layers f ! nat li)\<lparr>PixelData :=
                 (\<lambda>pos. case ps pos of Some psd \<Rightarrow> Some (Prev psd)
                                      | None \<Rightarrow> PixelData (Layers f ! nat li) pos)\<rparr>)]\<rparr>"
  have u: "Undo f = Inr ?f'"
    using assms(1,2) li
    by (simp add: Undo_def gi e Let_def SetCurrentLayer_def GetCurrentLayer_def go_index_def
             cong: option.case_cong)
  have k: "nat li < length (Layers f)" using li by simp
  have cells: "\<forall>i p. cell ?f' i p = undo_cell (delta_at e i p) (cell f i p)"
    using k by (simp add: cell_def e undo_cell_def nth_list_update Redraw_def)
  show ?thesis
    apply (rule exI [of _ ?f'])
    using u cells by (simp add: same_shape_def)
qed

lemma Redo_pixel_step:
  assumes "0 < historyOffset f" and "historyOffset f \<le> int (length (History f))"
    and "History f ! (length (History f) - nat (historyOffset f)) = e"
    and "pixel_entry (length (Layers f)) e"
  shows "\<exists>f'. Redo f = Inr f' \<and> History f' = History f \<and>
           historyOffset f' = historyOffset f - 1 \<and> same_shape f f' \<and>
           (\<forall>i p. cell f' i p = redo_cell (delta_at e i p) (cell f i p))"
proof -
  from assms(4) obtain ps li where e: "e = HistoryPixel ps li"
    and li: "0 \<le> li" "li < int (length (Layers f))"
    by (cases e) auto
  have n: "nat (int (length (History f)) - historyOffset f) =
           length (History f) - nat (historyOffset f)"
    using assms(1,2) by linarith
  have gi: "History f ! nat (int (length (History f)) - historyOffset f) = e"
    using assms(3) n by simp
  let ?f' = "f\<lparr>historyOffset := historyOffset f - 1,
                Layers := (Layers f)[nat li := Redraw ((Layers f ! nat li)\<lparr>PixelData :=
                 (\<lambda>pos. case ps pos of Some psd \<Rightarrow> Some (Current psd)
                                      | None \<Rightarrow> PixelData (Layers f ! nat li) pos)\<rparr>)]\<rparr>"
  have u: "Redo f = Inr ?f'"
    using assms(1,2) li
    by (simp add: Redo_def gi e Let_def SetCurrentLayer_def GetCurrentLayer_def go_index_def
             cong: option.case_cong)
  have k: "nat li < length (Layers f)" using li by simp
  have cells: "\<forall>i p. cell ?f' i p = redo_cell (delta_at e i p) (cell f i p)"
    using k by (simp add: cell_def e redo_cell_def nth_list_update Redraw_def)
  show ?thesis
    apply (rule exI [of _ ?f'])
    using u cells by (simp add: same_shape_def)
qed


lemma Undo_times_pixels:
  assumes "History f = xs @ es @ zs" and "historyOffset f = int (length zs)"
    and "list_all (pixel_entry (length (Layers f))) es"
  shows "\<exists>f'. Undo_times (length es) f = Inr f' \<and> History f' = History f \<and>
           historyOffset f' = int (length (es @ zs)) \<and> same_shape f f' \<and>
           (\<forall>i p. cell f' i p = foldr undo_cell (map (\<lambda>e. delta_at e i p) es) (cell f i p))"
  using assms
proof (induction es arbitrary: f zs rule: rev_induct)
  case Nil
  then show ?case by simp
next
  case (snoc e es)
  have a1: "0 \<le> historyOffset f" "historyOffset f < int (length (History f))"
    using snoc.prems(1,2) by simp_all
  have "length (History f) - Suc (nat (historyOffset f)) = length (xs @ es)"
    using snoc.prems(1,2) by simp
  then have a3: "History f ! (length (History f) - Suc (nat (historyOffset f))) = e"
    using snoc.prems(1) by (simp add: nth_append)
  have a4: "pixel_entry (length (Layers f)) e" using snoc.prems(3) by simp
  from Undo_pixel_step [OF a1 a3 a4] obtain f1 where
    u: "Undo f = Inr f1" and H1: "History f1 = History f"
    and O1: "historyOffset f1 = historyOffset f + 1" and S1: "same_shape f f1"
    and C1: "\<forall>i p. cell f1 i p = undo_cell (delta_at e i p) (cell f i p)"
    by blast
  have len: "length (Layers f1) = length (Layers f)" using S1 by (simp add: same_shape_def)
  have b1: "History f1 = xs @ es @ (e # zs)" using H1 snoc.prems(1) by simp
  have b2: "historyOffset f1 = int (length (e # zs))" using O1 snoc.prems(2) by simp
  have b3: "list_all (pixel_entry (length (Layers f1))) es" using snoc.prems(3) len by simp
  from snoc.IH [OF b1 b2 b3] obtain f' where
    r: "Undo_times (length es) f1 = Inr f'" and H': "History f' = History f1"
    and O': "historyOffset f' = int (length (es @ e # zs))" and S': "same_shape f1 f'"
    and C': "\<forall>i p. cell f' i p = foldr undo_cell (map (\<lambda>e. delta_at e i p) es) (cell f1 i p)"
    by blast
  have "Undo_times (length (es @ [e])) f = Inr f'" using u r by simp
  moreover have "same_shape f f'" using S1 S' by (rule same_shape_trans)
  ultimately show ?case using H' H1 O' C' C1 by simp
qed

lemma Redo_times_pixels:
  assumes "History f = xs @ es @ zs" and "historyOffset f = int (length (es @ zs))"
    and "list_all (pixel_entry (length (Layers f))) es"
  shows "\<exists>f'. Redo_times (length es) f = Inr f' \<and> History f' = History f \<and>
           historyOffset f' = int (length zs) \<and> same_shape f f' \<and>
           (\<forall>i p. cell f' i p = fold redo_cell (map (\<lambda>e. delta_at e i p) es) (cell f i p))"
  using assms
proof (induction es arbitrary: f xs)
  case Nil
  then show ?case by simp
next
  case (Cons e es)
  have a1: "0 < historyOffset f" "historyOffset f \<le> int (length (History f))"
    using Cons.prems(1,2) by simp_all
  have "length (History f) - nat (historyOffset f) = length xs"
    using Cons.prems(1,2) by simp
  then have a3: "History f ! (length (History f) - nat (historyOffset f)) = e"
    using Cons.prems(1) by simp
  have a4: "pixel_entry (length (Layers f)) e" using Cons.prems(3) by simp
  from Redo_pixel_step [OF a1 a3 a4] obtain f1 where
    u: "Redo f = Inr f1" and H1: "History f1 = History f"
    and O1: "historyOffset f1 = historyOffset f - 1" and S1: "same_shape f f1"
    and C1: "\<forall>i p. cell f1 i p = redo_cell (delta_at e i p) (cell f i p)"
    by blast
  have len: "length (Layers f1) = length (Layers f)" using S1 by (simp add: same_shape_def)
  have b1: "History f1 = (xs @ [e]) @ es @ zs" using H1 Cons.prems(1) by simp
  have b2: "historyOffset f1 = int (length (es @ zs))" using O1 Cons.prems(2) by simp
  have b3: "list_all (pixel_entry (length (Layers f1))) es" using Cons.prems(3) len by simp
  from Cons.IH [OF b1 b2 b3] obtain f' where
    r: "Redo_times (length es) f1 = Inr f'" and H': "History f' = History f1"
    and O': "historyOffset f' = int (length zs)" and S': "same_shape f1 f'"
    and C': "\<forall>i p. cell f' i p = fold redo_cell (map (\<lambda>e. delta_at e i p) es) (cell f1 i p)"
    by blast
  have "Redo_times (length (e # es)) f = Inr f'" using u r by simp
  moreover have "same_shape f f'" using S1 S' by (rule same_shape_trans)
  ultimately show ?case using H' H1 O' C' C1 by simp
qed

subsection \<open>The round trip\<close>

text \<open>
  C1, as the code has it. Take a document with a sound log and a valid current layer, and
  \<open>N\<close> gestures, \<open>N\<close> at most \<open>HistoryMaxActions\<close>, each of which opens a
  \<^verbatim>\<open>HistoryPixel\<close> with \<^verbatim>\<open>AppendHistory\<close> and calls \<^verbatim>\<open>DrawPixel\<close> with
  \<^verbatim>\<open>saveToHistory\<close> set, and in which no call changes the colour of a pixel that
  the open entry already records. Then the gestures return; \<open>N\<close> calls of
  \<^verbatim>\<open>Undo\<close> return and give every pixel of every layer the colour it had before the
  gestures, a coordinate without an entry reading as transparent; and \<open>N\<close> calls of
  \<^verbatim>\<open>Redo\<close> then return and give every layer exactly the pixel map it had after the
  gestures.
\<close>

theorem gestures_Undo_Redo_roundtrip:
  assumes "history_ok f" and "0 \<le> CurrentLayer f" and "CurrentLayer f < int (length (Layers f))"
    and "length gs \<le> nat (HistoryMaxActions f)"
    and "gestures_change_once b gs f"
  shows "\<exists>f1 f2 f3. gestures b gs f = Inr f1 \<and>
           Undo_times (length gs) f1 = Inr f2 \<and> pixel_view f2 = pixel_view f \<and>
           Redo_times (length gs) f2 = Inr f3 \<and>
           map PixelData (Layers f3) = map PixelData (Layers f1)"
proof (cases "gs = []")
  case True
  then show ?thesis by simp
next
  case False
  let ?M = "nat (HistoryMaxActions f)"
  let ?h = "take (length (History f) - nat (historyOffset f)) (History f)"
  from gestures_linked [OF assms(1,2,3) False assms(5)] obtain f1 es where
    g: "gestures b gs f = Inr f1" and L: "length es = length gs"
    and H1: "History f1 = drop (length (?h @ es) - ?M) (?h @ es)"
    and O1: "historyOffset f1 = 0" and S1: "same_shape f f1"
    and E: "list_all (pixel_entry (length (Layers f))) es"
    and K: "\<forall>i p. linked (cell f i p) (map (\<lambda>e. delta_at e i p) es) (cell f1 i p)"
    by blast
  let ?xs = "drop (length ?h + length es - ?M) ?h"
  have n1: "length (Layers f1) = length (Layers f)" using S1 by (simp add: same_shape_def)
  have u1: "History f1 = ?xs @ es @ []" using H1 L assms(4) by simp
  have u2: "historyOffset f1 = int (length ([] :: HistoryItem list))" using O1 by simp
  have u3: "list_all (pixel_entry (length (Layers f1))) es" using E n1 by simp
  from Undo_times_pixels [OF u1 u2 u3] obtain f2 where
    un: "Undo_times (length es) f1 = Inr f2" and H2: "History f2 = History f1"
    and O2: "historyOffset f2 = int (length (es @ []))" and S2: "same_shape f1 f2"
    and C2: "\<forall>i p. cell f2 i p = foldr undo_cell (map (\<lambda>e. delta_at e i p) es) (cell f1 i p)"
    by blast
  have n2: "length (Layers f2) = length (Layers f)" using S2 n1 by (simp add: same_shape_def)
  have r1: "History f2 = ?xs @ es @ []" using H2 u1 by simp
  have r3: "list_all (pixel_entry (length (Layers f2))) es" using E n2 by simp
  from Redo_times_pixels [OF r1 O2 r3] obtain f3 where
    re: "Redo_times (length es) f2 = Inr f3" and S3: "same_shape f2 f3"
    and C3: "\<forall>i p. cell f3 i p = fold redo_cell (map (\<lambda>e. delta_at e i p) es) (cell f2 i p)"
    by blast
  have n3: "length (Layers f3) = length (Layers f1)" using S3 n2 n1 by (simp add: same_shape_def)
  have restored: "cell_color (cell f2 i p) = cell_color (cell f i p)" for i p
  proof -
    have "linked (cell f i p) (map (\<lambda>e. delta_at e i p) es) (cell f1 i p)" using K by blast
    from linked_undo [OF this] C2 show ?thesis by simp
  qed
  have redone: "cell f3 i p = cell f1 i p" for i p
  proof -
    have "linked (cell f i p) (map (\<lambda>e. delta_at e i p) es) (cell f1 i p)" using K by blast
    from linked_redo [OF this] C2 C3 show ?thesis by simp
  qed
  have v: "pixel_view f2 = pixel_view f"
  proof (rule nth_equalityI)
    show "length (pixel_view f2) = length (pixel_view f)" using n2 by (simp add: pixel_view_def)
    fix i assume "i < length (pixel_view f2)"
    then have i: "i < length (Layers f2)" "i < length (Layers f)" using n2 by (simp_all add: pixel_view_def)
    show "pixel_view f2 ! i = pixel_view f ! i"
      using i restored [of i] by (auto simp: pixel_view_def color_at_cell cell_def)
  qed
  have m: "map PixelData (Layers f3) = map PixelData (Layers f1)"
  proof (rule nth_equalityI)
    show "length (map PixelData (Layers f3)) = length (map PixelData (Layers f1))" using n3 by simp
    fix i assume "i < length (map PixelData (Layers f3))"
    then have i: "i < length (Layers f3)" "i < length (Layers f1)" using n3 by simp_all
    show "map PixelData (Layers f3) ! i = map PixelData (Layers f1) ! i"
      using i redone [of i] by (auto simp: cell_def)
  qed
  from g un re v m L show ?thesis by auto
qed


text \<open>
  The two gestures on a new document; the first one draws the same colour twice on one
  pixel, which changes it once.
\<close>

theorem gestures_Undo_Redo_roundtrip_witness:
  "history_ok (NewFile 4 4 8 8) \<and> 0 \<le> CurrentLayer (NewFile 4 4 8 8) \<and>
   CurrentLayer (NewFile 4 4 8 8) < int (length (Layers (NewFile 4 4 8 8))) \<and>
   length two_gestures \<le> nat (HistoryMaxActions (NewFile 4 4 8 8)) \<and>
   gestures_change_once BlendWithOpacity two_gestures (NewFile 4 4 8 8) \<and>
   (\<exists>f1 f2 f3.
      gestures BlendWithOpacity two_gestures (NewFile 4 4 8 8) = Inr f1 \<and>
      Undo_times (length two_gestures) f1 = Inr f2 \<and>
      pixel_view f2 = pixel_view (NewFile 4 4 8 8) \<and>
      Redo_times (length two_gestures) f2 = Inr f3 \<and>
      map PixelData (Layers f3) = map PixelData (Layers f1))"
proof -
  let ?f = "NewFile 4 4 8 8"
  have h1: "history_ok ?f" by (simp add: history_ok_def NewFile_def)
  have h2: "0 \<le> CurrentLayer ?f" and h3: "CurrentLayer ?f < int (length (Layers ?f))"
    by (simp_all add: NewFile_def)
  have h4: "length two_gestures \<le> nat (HistoryMaxActions ?f)"
    by (simp add: NewFile_def two_gestures_def)
  have b: "BlendWithOpacity Transparent Red = Red" "BlendWithOpacity Transparent Blue = Blue"
    "BlendWithOpacity Red Red = Red" "BlendWithOpacity Red Blue = Blue"
    by (simp_all add: blend_opaque Red_def Blue_def)
  have h5: "gestures_change_once BlendWithOpacity two_gestures ?f"
    using colours_differ b by (simp add: two_gestures_def rewrites_record_def run_defs)
  from gestures_Undo_Redo_roundtrip [OF h1 h2 h3 h4 h5] h1 h2 h3 h4 h5
  show ?thesis by blast
qed


text \<open>
  C1 as stated fails in two ways that the design accounts for. First, the
  pixel maps are not restored exactly: on a new document one gesture draws red at
  \<open>(1, 1)\<close>, where the map has no entry, and \<^verbatim>\<open>Undo\<close> leaves an entry holding
  the transparent colour there. Second, the log is bounded: on a document whose log
  keeps one entry, two gestures followed by two calls of \<^verbatim>\<open>Undo\<close> leave the red
  pixel of the first gesture, whose entry was evicted.
\<close>

theorem gestures_Undo_not_exact:
  "(case gestures BlendWithOpacity [[(1, 1, Red)]] (NewFile 4 4 8 8) of
      Inl e \<Rightarrow> False
    | Inr f1 \<Rightarrow>
        (case Undo_times 1 f1 of
           Inl e \<Rightarrow> False
         | Inr f2 \<Rightarrow>
             PixelData (Layers (NewFile 4 4 8 8) ! 0) (IntVec2 1 1) = None \<and>
             PixelData (Layers f2 ! 0) (IntVec2 1 1) = Some Transparent)) \<and>
   (case gestures BlendWithOpacity [[(0, 0, Red)], [(1, 1, Blue)]] short_log_doc of
      Inl e \<Rightarrow> False
    | Inr f1 \<Rightarrow>
        (case Undo_times 2 f1 of
           Inl e \<Rightarrow> False
         | Inr f2 \<Rightarrow>
             PixelData (Layers short_log_doc ! 0) (IntVec2 0 0) = None \<and>
             PixelData (Layers f2 ! 0) (IntVec2 0 0) = Some Red))"
proof -
  have b1: "BlendWithOpacity Transparent Red = Red" "BlendWithOpacity Transparent Blue = Blue"
    by (simp_all add: blend_opaque Red_def Blue_def)
  show ?thesis
    using colours_differ b1
    by (simp add: numeral_2_eq_2 short_log_doc_def run_defs)
qed

subsection \<open>A sufficient condition\<close>

text \<open>
  Gestures that draw no coordinate twice change each colour once, whatever the blending
  function.
\<close>

lemma distinct_changes_once:
  assumes "0 \<le> CurrentLayer f" and "CurrentLayer f < int (length (Layers f))"
    and "History f = hs @ [HistoryPixel ps li]"
    and "distinct (map coord ds)"
    and "\<forall>d \<in> set ds. ps (coord d) = None"
  shows "changes_once b ds f"
  using assms
proof (induction ds arbitrary: f ps)
  case Nil
  then show ?case by simp
next
  case (Cons d ds)
  obtain x y c where d: "d = (x, y, c)" by (cases d) auto
  let ?q = "IntVec2 x y"
  have q: "coord d = ?q" by (simp add: d coord_def)
  have psq: "ps ?q = None" using Cons.prems(5) q by simp
  have nr: "\<not> rewrites_record b x y c f"
    using psq Cons.prems(3)
    by (auto simp: rewrites_record_def Let_def go_index_def split: sum.splits)
  from DrawPixel_step [OF Cons.prems(1,2,3), of b x y c] obtain f1 ps1 where
    dr: "DrawPixel b x y c True f = Inr f1"
    and H1: "History f1 = hs @ [HistoryPixel ps1 li]"
    and S1: "same_shape f f1"
    and P1: "\<forall>p. p \<noteq> ?q \<longrightarrow> ps1 p = ps p"
    by blast
  have notin: "\<forall>d' \<in> set ds. coord d' \<noteq> ?q" using Cons.prems(4) q by force
  have a1: "0 \<le> CurrentLayer f1" "CurrentLayer f1 < int (length (Layers f1))"
    using Cons.prems(1,2) S1 by (simp_all add: same_shape_def)
  have a4: "distinct (map coord ds)" using Cons.prems(4) by simp
  have a5: "\<forall>d' \<in> set ds. ps1 (coord d') = None" using Cons.prems(5) notin P1 by simp
  from Cons.IH [OF a1 H1 a4 a5] nr dr show ?case by (simp add: d)
qed


lemma distinct_gestures_change_once:
  assumes "history_ok f" and "0 \<le> CurrentLayer f" and "CurrentLayer f < int (length (Layers f))"
    and "\<forall>ds \<in> set gs. distinct (map coord ds)"
  shows "gestures_change_once b gs f"
  using assms
proof (induction gs arbitrary: f)
  case Nil
  then show ?case by simp
next
  case (Cons ds gs)
  let ?M = "nat (HistoryMaxActions f)"
  let ?h = "take (length (History f) - nat (historyOffset f)) (History f)"
  let ?hs = "if length ?h = ?M then tl ?h else ?h"
  let ?f0 = "f\<lparr>History := ?hs @ [HistoryPixel Map.empty (CurrentLayer f)], historyOffset := 0\<rparr>"
  have app: "AppendHistory (HistoryPixel Map.empty (CurrentLayer f)) f = Inr ?f0"
    using AppendHistory_ok [OF Cons.prems(1)] by (simp add: Let_def)
  have once0: "changes_once b ds ?f0"
    using Cons.prems(2,3,4)
    by (intro distinct_changes_once [where hs = ?hs and ps = Map.empty and li = "CurrentLayer f"])
       simp_all
  then have once: "\<forall>f0. AppendHistory (HistoryPixel Map.empty (CurrentLayer f)) f = Inr f0 \<longrightarrow>
                    changes_once b ds f0"
    using app by simp
  from gesture_fits [OF Cons.prems(1,2,3) once] obtain f1 e where
    g: "gesture b ds f = Inr f1"
    and H1: "History f1 = ?hs @ [e]"
    and O1: "historyOffset f1 = 0"
    and S1: "same_shape f f1"
    by (auto simp: Let_def)
  have dr: "DrawPixelAll b ds ?f0 = Inr f1" using g app by (simp add: gesture_def)
  have hM: "length ?h \<le> ?M" "0 < ?M"
    using Cons.prems(1) by (auto simp: history_ok_def)
  have shape: "CurrentLayer f1 = CurrentLayer f" "length (Layers f1) = length (Layers f)"
    "HistoryMaxActions f1 = HistoryMaxActions f"
    using S1 by (simp_all add: same_shape_def)
  have ok1: "history_ok f1"
    using Cons.prems(1) H1 O1 shape hM by (auto simp: history_ok_def)
  have cl1: "0 \<le> CurrentLayer f1" "CurrentLayer f1 < int (length (Layers f1))"
    using Cons.prems(2,3) shape by simp_all
  have d1: "\<forall>ds \<in> set gs. distinct (map coord ds)" using Cons.prems(4) by simp
  from Cons.IH [OF ok1 cl1 d1] once0 app dr show ?case by simp
qed

end
